theory Spec2Isabelle
  imports Main "HOL-Library.AList" "HOL-Library.Sublist"
begin

section \<open>JavaScript values that reach the dependency map\<close>

text \<open>
  \<^verbatim>\<open>src/src/GlobalDependencyMap.js\<close> is a class around one \<^verbatim>\<open>DepGraph\<close> object. Its
  methods take arbitrary JavaScript values where a node is expected, so the model has a
  small universe of such values. An object is described by what its \<^verbatim>\<open>toString\<close>
  property does: \<open>JSObject None\<close> has no such property (\<^verbatim>\<open>Object.create(null)\<close>),
  \<open>JSObject (Some r)\<close> returns \<open>r\<close> from it (a \<^verbatim>\<open>URL\<close> returns a string). Objects
  keep the default \<^verbatim>\<open>valueOf\<close>, which returns the object itself. The primitives are
  of all seven kinds of the language. A number is given by an integer: fractions,
  \<^verbatim>\<open>NaN\<close> and the infinities are left out. The language prints a safe integer (one of
  size at most \<^verbatim>\<open>2 ** 53 - 1\<close>) by its decimal digits; where another number would have
  to be printed the model answers \<open>NotModelled\<close>. A big integer is always printed by its
  decimal digits. A symbol is described no further: it cannot be printed.
\<close>

datatype jsval =
    JSUndefined
  | JSNull
  | JSBoolean bool
  | JSNumber int
  | JSBigInt int
  | JSString string
  | JSSymbol
  | JSObject "jsval option"

text \<open>A node name as the graph stores it: \<open>None\<close> is the key \<^verbatim>\<open>undefined\<close>.\<close>

type_synonym node = "string option"

datatype error =
    Error string       \<comment> \<open>\<^verbatim>\<open>throw new Error(message)\<close>\<close>
  | TypeError          \<comment> \<open>a \<^verbatim>\<open>TypeError\<close> raised by the language itself\<close>
  | NotModelled        \<comment> \<open>the input leaves the fragment of JavaScript modelled here\<close>

definition andThen :: "error + 'a \<Rightarrow> ('a \<Rightarrow> error + 'b) \<Rightarrow> error + 'b" where
  "andThen r f = (case r of Inl e \<Rightarrow> Inl e | Inr x \<Rightarrow> f x)"

fun truthy :: "jsval \<Rightarrow> bool" where
  "truthy JSUndefined = False"
| "truthy JSNull = False"
| "truthy (JSBoolean b) = b"
| "truthy (JSNumber n) = (n \<noteq> 0)"
| "truthy (JSBigInt n) = (n \<noteq> 0)"
| "truthy (JSString s) = (s \<noteq> [])"
| "truthy JSSymbol = True"
| "truthy (JSObject t) = True"

fun digit :: "nat \<Rightarrow> char" where
  "digit n = ''0123456789'' ! (n mod 10)"

fun showNat :: "nat \<Rightarrow> string" where
  "showNat n = (if n < 10 then [digit n] else showNat (n div 10) @ [digit n])"

definition showInt :: "int \<Rightarrow> string" where
  "showInt i = (if i < 0 then CHR ''-'' # showNat (nat (- i)) else showNat (nat i))"

definition safeInteger :: "int \<Rightarrow> bool" where
  "safeInteger n = (- 9007199254740991 \<le> n \<and> n \<le> 9007199254740991)"

text \<open>
  \<^verbatim>\<open>"..." + v\<close>: the string a value contributes to a concatenation. A symbol cannot be
  written and raises a \<^verbatim>\<open>TypeError\<close>. An object is first turned into a primitive, by
  \<^verbatim>\<open>valueOf\<close> (which returns the object, so it is passed over) and then by
  \<^verbatim>\<open>toString\<close>; when that is missing or returns an object, the concatenation raises a
  \<^verbatim>\<open>TypeError\<close>.
\<close>

fun primitiveToString :: "jsval \<Rightarrow> error + string" where
  "primitiveToString JSUndefined = Inr ''undefined''"
| "primitiveToString JSNull = Inr ''null''"
| "primitiveToString (JSBoolean b) = Inr (if b then ''true'' else ''false'')"
| "primitiveToString (JSNumber n) = (if safeInteger n then Inr (showInt n) else Inl NotModelled)"
| "primitiveToString (JSBigInt n) = Inr (showInt n)"
| "primitiveToString (JSString s) = Inr s"
| "primitiveToString JSSymbol = Inl TypeError"
| "primitiveToString (JSObject t) = Inl TypeError"

fun concatOperand :: "jsval \<Rightarrow> error + string" where
  "concatOperand (JSObject None) = Inl TypeError"
| "concatOperand (JSObject (Some r)) = primitiveToString r"
| "concatOperand v = primitiveToString v"

section \<open>The directed graph store\<close>

text \<open>
  Modelled from the spec: the class \<^verbatim>\<open>DepGraph\<close> of the package
  \<^verbatim>\<open>dependency-graph\<close>, imported in line 1 of the source and not part of it. The
  spec's section 4.1 gives its contract: nodes with data, edges kept in both directions,
  direct and transitive queries, and an overall order that tolerates cycles with a
  deterministic tie rule. The model keeps the three insertion-ordered tables the
  store serializes (\<open>nodes\<close>, \<open>outgoingEdges\<close>, \<open>incomingEdges\<close>) as association
  lists: \<open>AList.update\<close> overwrites in place or appends, as \<^verbatim>\<open>Map.prototype.set\<close>
  does. The graph is always the one made by \<^verbatim>\<open>new DepGraph({ circular: true })\<close>, the
  only construction in the source. The tie rule is depth-first post-order, edges in
  insertion order.
\<close>

text \<open>
  What a node carries: \<^verbatim>\<open>addNode(name)\<close> stores the name itself, \<^verbatim>\<open>addNode(name, {type})\<close>
  an object, and \<^verbatim>\<open>Object.assign\<close> on a primitive string yields a \<^verbatim>\<open>String\<close> wrapper
  object with the new properties on it.
\<close>

datatype nodeData =
    DUndefined
  | DString string
  | DObject "(string \<times> string) list"
  | DStringObject string "(string \<times> string) list"

record depGraph =
  nodes :: "(node \<times> nodeData) list"
  outgoingEdges :: "(node \<times> node list) list"
  incomingEdges :: "(node \<times> node list) list"

definition newDepGraph :: depGraph where
  "newDepGraph = \<lparr> nodes = [], outgoingEdges = [], incomingEdges = [] \<rparr>"

definition nodeToString :: "node \<Rightarrow> string" where
  "nodeToString n = (case n of None \<Rightarrow> ''undefined'' | Some s \<Rightarrow> s)"

definition dataOfNode :: "node \<Rightarrow> nodeData" where
  "dataOfNode n = (case n of None \<Rightarrow> DUndefined | Some s \<Rightarrow> DString s)"

definition edgesOf :: "(node \<times> node list) list \<Rightarrow> node \<Rightarrow> node list" where
  "edgesOf edges n = (case map_of edges n of None \<Rightarrow> [] | Some ns \<Rightarrow> ns)"

definition hasNode :: "depGraph \<Rightarrow> node \<Rightarrow> bool" where
  "hasNode g n = (map_of (nodes g) n \<noteq> None)"

definition doesNotExist :: "node \<Rightarrow> error" where
  "doesNotExist n = Error (''Node does not exist: '' @ nodeToString n)"

definition addNode :: "depGraph \<Rightarrow> node \<Rightarrow> nodeData option \<Rightarrow> depGraph" where
  "addNode g n d =
     (if hasNode g n then g
      else \<lparr> nodes = AList.update n (case d of None \<Rightarrow> dataOfNode n | Some x \<Rightarrow> x) (nodes g),
             outgoingEdges = AList.update n [] (outgoingEdges g),
             incomingEdges = AList.update n [] (incomingEdges g) \<rparr>)"

definition spliceOut :: "node \<Rightarrow> (node \<times> node list) list \<Rightarrow> (node \<times> node list) list" where
  "spliceOut n edges = map (\<lambda>(k, v). (k, remove1 n v)) edges"

definition removeNode :: "depGraph \<Rightarrow> node \<Rightarrow> depGraph" where
  "removeNode g n =
     (if hasNode g n
      then \<lparr> nodes = AList.delete n (nodes g),
             outgoingEdges = spliceOut n (AList.delete n (outgoingEdges g)),
             incomingEdges = spliceOut n (AList.delete n (incomingEdges g)) \<rparr>
      else g)"

definition getNodeData :: "depGraph \<Rightarrow> node \<Rightarrow> error + nodeData" where
  "getNodeData g n = (case map_of (nodes g) n of None \<Rightarrow> Inl (doesNotExist n) | Some d \<Rightarrow> Inr d)"

definition setNodeData :: "depGraph \<Rightarrow> node \<Rightarrow> nodeData \<Rightarrow> error + depGraph" where
  "setNodeData g n d =
     (if hasNode g n then Inr (g\<lparr> nodes := AList.update n d (nodes g) \<rparr>)
      else Inl (doesNotExist n))"

definition pushUnique :: "node \<Rightarrow> node \<Rightarrow> (node \<times> node list) list \<Rightarrow> (node \<times> node list) list" where
  "pushUnique k x edges =
     (if x \<in> set (edgesOf edges k) then edges else AList.update k (edgesOf edges k @ [x]) edges)"

definition graphAddDependency :: "depGraph \<Rightarrow> node \<Rightarrow> node \<Rightarrow> error + depGraph" where
  "graphAddDependency g from to =
     (if \<not> hasNode g from then Inl (doesNotExist from)
      else if \<not> hasNode g to then Inl (doesNotExist to)
      else Inr (g\<lparr> outgoingEdges := pushUnique from to (outgoingEdges g),
                   incomingEdges := pushUnique to from (incomingEdges g) \<rparr>))"

definition spliceAt :: "node \<Rightarrow> node \<Rightarrow> (node \<times> node list) list \<Rightarrow> (node \<times> node list) list" where
  "spliceAt k x edges = AList.update k (remove1 x (edgesOf edges k)) edges"

definition removeDependency :: "depGraph \<Rightarrow> node \<Rightarrow> node \<Rightarrow> depGraph" where
  "removeDependency g from to =
     (let g1 = (if hasNode g from then g\<lparr> outgoingEdges := spliceAt from to (outgoingEdges g) \<rparr> else g)
      in if hasNode g1 to then g1\<lparr> incomingEdges := spliceAt to from (incomingEdges g1) \<rparr> else g1)"

definition directDependenciesOf :: "depGraph \<Rightarrow> node \<Rightarrow> error + node list" where
  "directDependenciesOf g n =
     (if hasNode g n then Inr (edgesOf (outgoingEdges g) n) else Inl (doesNotExist n))"

definition directDependantsOf :: "depGraph \<Rightarrow> node \<Rightarrow> error + node list" where
  "directDependantsOf g n =
     (if hasNode g n then Inr (edgesOf (incomingEdges g) n) else Inl (doesNotExist n))"

text \<open>
  The walk behind the transitive queries and the overall order: a stack of entries, each
  a node and whether its edges were already pushed. A node met again on the current path
  closes a cycle and is dropped; a node is emitted when its entry is met the second time.
\<close>

definition dfsUniverse :: "(node \<times> node list) list \<Rightarrow> (node \<times> bool) list \<Rightarrow> node set" where
  "dfsUniverse edges todo = set (concat (map snd edges)) \<union> fst ` set todo"

function dfsLoop ::
  "(node \<times> node list) list \<Rightarrow> node list \<Rightarrow> node list \<Rightarrow> (node \<times> bool) list \<Rightarrow> node list
     \<Rightarrow> node list \<times> node list" where
  "dfsLoop edges visited inCurrentPath [] result = (visited, result)"
| "dfsLoop edges visited inCurrentPath ((n, False) # todo) result =
     (if n \<in> set visited then dfsLoop edges visited inCurrentPath todo result
      else if n \<in> set inCurrentPath then dfsLoop edges visited inCurrentPath todo result
      else dfsLoop edges visited (n # inCurrentPath)
             (map (\<lambda>m. (m, False)) (edgesOf edges n) @ (n, True) # todo) result)"
| "dfsLoop edges visited inCurrentPath ((n, True) # todo) result =
     dfsLoop edges (n # visited) (removeAll n inCurrentPath) todo (result @ [n])"
  by pat_completeness auto

termination dfsLoop
proof (relation "measures [\<lambda>(edges, visited, inPath, todo, result). card (dfsUniverse edges todo - (set visited \<union> set inPath)),
                          \<lambda>(edges, visited, inPath, todo, result). length todo]", goal_cases)
  case 1 show ?case by simp
next
  case (2 edges visited inPath n todo result)
  have "dfsUniverse edges todo - (set visited \<union> set inPath) \<subseteq> dfsUniverse edges ((n, False) # todo) - (set visited \<union> set inPath)"
    by (auto simp: dfsUniverse_def)
  then have "card (dfsUniverse edges todo - (set visited \<union> set inPath)) \<le> card (dfsUniverse edges ((n, False) # todo) - (set visited \<union> set inPath))"
    by (intro card_mono) (auto simp: dfsUniverse_def)
  then show ?case by auto
next
  case (3 edges visited inPath n todo result)
  have "dfsUniverse edges todo - (set visited \<union> set inPath) \<subseteq> dfsUniverse edges ((n, False) # todo) - (set visited \<union> set inPath)"
    by (auto simp: dfsUniverse_def)
  then have "card (dfsUniverse edges todo - (set visited \<union> set inPath)) \<le> card (dfsUniverse edges ((n, False) # todo) - (set visited \<union> set inPath))"
    by (intro card_mono) (auto simp: dfsUniverse_def)
  then show ?case by auto
next
  case (4 edges visited inPath n todo result)
  let ?todo' = "map (\<lambda>m. (m, False)) (edgesOf edges n) @ (n, True) # todo"
  have sub: "set (edgesOf edges n) \<subseteq> set (concat (map snd edges))"
  proof (cases "map_of edges n")
    case None
    then show ?thesis by (simp add: edgesOf_def)
  next
    case (Some ns)
    then have "(n, ns) \<in> set edges" by (rule map_of_SomeD)
    then have "set ns \<subseteq> set (concat (map snd edges))" by force
    with Some show ?thesis by (simp add: edgesOf_def)
  qed
  have "dfsUniverse edges ?todo' - (set visited \<union> set (n # inPath)) \<subset> dfsUniverse edges ((n, False) # todo) - (set visited \<union> set inPath)"
    using 4 sub by (auto simp: dfsUniverse_def image_Un)
  then have "card (dfsUniverse edges ?todo' - (set visited \<union> set (n # inPath))) < card (dfsUniverse edges ((n, False) # todo) - (set visited \<union> set inPath))"
    by (intro psubset_card_mono) (auto simp: dfsUniverse_def)
  then show ?case by auto
next
  case (5 edges visited inPath n todo result)
  have "dfsUniverse edges todo - (set (n # visited) \<union> set (removeAll n inPath)) \<subseteq> dfsUniverse edges ((n, True) # todo) - (set visited \<union> set inPath)"
    by (auto simp: dfsUniverse_def)
  then have "card (dfsUniverse edges todo - (set (n # visited) \<union> set (removeAll n inPath))) \<le> card (dfsUniverse edges ((n, True) # todo) - (set visited \<union> set inPath))"
    by (intro card_mono) (auto simp: dfsUniverse_def)
  then show ?case by auto
qed

definition runDFS ::
  "(node \<times> node list) list \<Rightarrow> node list \<times> node list \<Rightarrow> node \<Rightarrow> node list \<times> node list" where
  "runDFS edges st start =
     (if start \<in> set (fst st) then st
      else dfsLoop edges (fst st) [] [(start, False)] (snd st))"

definition dependenciesOf :: "depGraph \<Rightarrow> node \<Rightarrow> error + node list" where
  "dependenciesOf g n =
     (if hasNode g n then Inr (remove1 n (snd (runDFS (outgoingEdges g) ([], []) n)))
      else Inl (doesNotExist n))"

definition dependantsOf :: "depGraph \<Rightarrow> node \<Rightarrow> error + node list" where
  "dependantsOf g n =
     (if hasNode g n then Inr (remove1 n (snd (runDFS (incomingEdges g) ([], []) n)))
      else Inl (doesNotExist n))"

text \<open>
  The overall order: a walk from every node nothing depends on, then (cycles being
  allowed) from every node the first pass did not reach; that second list is fixed
  before its walks start.
\<close>

definition overallOrder :: "depGraph \<Rightarrow> node list" where
  "overallOrder g =
     (let keys = map fst (nodes g);
          st1 = foldl (runDFS (outgoingEdges g)) ([], [])
                  (filter (\<lambda>n. edgesOf (incomingEdges g) n = []) keys);
          rest = filter (\<lambda>n. n \<notin> set (snd st1)) keys
      in snd (foldl (runDFS (outgoingEdges g)) st1 rest))"

section \<open>The dependency map\<close>

text \<open>
  What the class reads from its surroundings. \<open>fullNormalization\<close> stands for
  \<^verbatim>\<open>PathNormalizer.fullNormalization\<close> on strings and \<open>javaScriptDependencies\<close> for
  \<^verbatim>\<open>JavaScriptDependencies.getDependencies([layout], isEsm)\<close>; both are imported
  and not part of the source file, so they are parameters. \<open>templateConfig\<close> is the
  private field set by \<^verbatim>\<open>setTemplateConfig\<close> (\<open>None\<close> before it), with the two things
  read from it: the keys of \<^verbatim>\<open>userConfig.getCollections()\<close> and
  \<^verbatim>\<open>shouldSpiderJavaScriptDependencies()\<close>. The cached names are what
  \<^verbatim>\<open>setCollectionApiNames\<close> stored. The graph itself (\<^verbatim>\<open>this.map\<close>, created empty on
  first use) is passed to every operation and returned by the mutating ones.
\<close>

record templateConfig =
  getCollections :: "string list"
  shouldSpiderJavaScriptDependencies :: bool

record env =
  fullNormalization :: "string \<Rightarrow> string"
  javaScriptDependencies :: "string \<Rightarrow> string list"
  templateConfig :: "templateConfig option"
  cachedUserConfigurationCollectionApiNames :: "string list option"

definition LAYOUT_KEY :: string where
  "LAYOUT_KEY = ''layout''"

definition COLLECTION_PREFIX :: string where
  "COLLECTION_PREFIX = ''__collection:''"

definition CONFIGAPI_DATA_KEY :: string where
  "CONFIGAPI_DATA_KEY = ''[configapi]''"

definition SPECIAL_ALL_COLLECTION_NAME :: string where
  "SPECIAL_ALL_COLLECTION_NAME = ''all''"

definition SPECIAL_KEYS_COLLECTION_NAME :: string where
  "SPECIAL_KEYS_COLLECTION_NAME = ''[keys]''"

fun mapE :: "('a \<Rightarrow> error + 'b) \<Rightarrow> 'a list \<Rightarrow> error + 'b list" where
  "mapE f [] = Inr []"
| "mapE f (x # xs) =
     (case f x of Inl e \<Rightarrow> Inl e
      | Inr y \<Rightarrow> (case mapE f xs of Inl e \<Rightarrow> Inl e | Inr ys \<Rightarrow> Inr (y # ys)))"

fun foldE :: "('s \<Rightarrow> 'a \<Rightarrow> error + 's) \<Rightarrow> 's \<Rightarrow> 'a list \<Rightarrow> error + 's" where
  "foldE f s [] = Inr s"
| "foldE f s (x # xs) = (case f s x of Inl e \<Rightarrow> Inl e | Inr s' \<Rightarrow> foldE f s' xs)"

definition isTag :: "node \<Rightarrow> error + bool" where
  "isTag entry = (case entry of None \<Rightarrow> Inl TypeError | Some s \<Rightarrow> Inr (prefix COLLECTION_PREFIX s))"

definition getTagName :: "node \<Rightarrow> error + string option" where
  "getTagName entry =
     (case entry of None \<Rightarrow> Inl TypeError
      | Some s \<Rightarrow> Inr (if prefix COLLECTION_PREFIX s then Some (drop (length COLLECTION_PREFIX) s) else None))"

definition getCollectionKeyForEntry :: "string \<Rightarrow> string" where
  "getCollectionKeyForEntry entry = COLLECTION_PREFIX @ entry"

definition userConfigurationCollectionApiNames :: "env \<Rightarrow> error + string list" where
  "userConfigurationCollectionApiNames e =
     (case cachedUserConfigurationCollectionApiNames e of
        Some names \<Rightarrow> Inr names
      | None \<Rightarrow> (case templateConfig e of None \<Rightarrow> Inl TypeError | Some tc \<Rightarrow> Inr (getCollections tc)))"

definition isUserConfigCollectionName :: "env \<Rightarrow> string \<Rightarrow> error + bool" where
  "isUserConfigCollectionName e name =
     andThen (userConfigurationCollectionApiNames e) (\<lambda>names. Inr (name \<in> set names))"

definition mustBeStrings :: string where
  "mustBeStrings = ''`addDependencies` files must be strings. Received:''"

text \<open>
  \<^verbatim>\<open>normalizeNode\<close> (lines 168-184). A falsy value returns \<^verbatim>\<open>undefined\<close>; the
  \<^verbatim>\<open>in\<close> operator raises a \<^verbatim>\<open>TypeError\<close> on a primitive; the message of the error is
  built by a concatenation, which can itself raise.
\<close>

fun normalizeNode :: "env \<Rightarrow> jsval \<Rightarrow> error + node" where
  "normalizeNode e node =
     (if \<not> truthy node then Inr None
      else case node of
          JSString s \<Rightarrow> Inr (Some (fullNormalization e s))
        | JSObject None \<Rightarrow>
            (case concatOperand node of Inl err \<Rightarrow> Inl err
             | Inr shown \<Rightarrow> Inl (Error (mustBeStrings @ shown)))
        | JSObject (Some (JSString s)) \<Rightarrow> Inr (Some (fullNormalization e s))
        | JSObject (Some r) \<Rightarrow>
            (case concatOperand r of Inl err \<Rightarrow> Inl err
             | Inr shown \<Rightarrow> Inl (Error (mustBeStrings @ shown)))
        | _ \<Rightarrow> Inl TypeError)"

definition jsOfNode :: "node \<Rightarrow> jsval" where
  "jsOfNode n = (case n of None \<Rightarrow> JSUndefined | Some s \<Rightarrow> JSString s)"

definition dataProp :: "nodeData \<Rightarrow> string \<Rightarrow> string option" where
  "dataProp d k =
     (case d of DUndefined \<Rightarrow> None | DString s \<Rightarrow> None
      | DObject ps \<Rightarrow> map_of ps k | DStringObject s ps \<Rightarrow> map_of ps k)"

definition isLayoutData :: "nodeData \<Rightarrow> bool" where
  "isLayoutData d = (dataProp d ''type'' = Some LAYOUT_KEY)"

text \<open>The private \<^verbatim>\<open>#addNode\<close> (lines 340-351) and \<^verbatim>\<open>#addDependency\<close> (lines 354-369).\<close>

definition addNodeP :: "depGraph \<Rightarrow> node \<Rightarrow> string option \<Rightarrow> depGraph" where
  "addNodeP g name type =
     (if hasNode g name then g
      else case type of
          None \<Rightarrow> addNode g name None
        | Some t \<Rightarrow> if t \<noteq> [] then addNode g name (Some (DObject [(''type'', t)]))
                    else addNode g name None)"

definition addDependencyStep :: "node \<Rightarrow> depGraph \<Rightarrow> node \<Rightarrow> error + depGraph" where
  "addDependencyStep from g to =
     (let g1 = addNodeP g to None
      in if from \<noteq> to then graphAddDependency g1 from to else Inr g1)"

definition addDependencyP :: "depGraph \<Rightarrow> node \<Rightarrow> node list \<Rightarrow> error + depGraph" where
  "addDependencyP g from toArray = foldE (addDependencyStep from) (addNodeP g from None) toArray"

definition addDependency :: "env \<Rightarrow> depGraph \<Rightarrow> jsval \<Rightarrow> jsval list \<Rightarrow> error + depGraph" where
  "addDependency e g from toArray =
     andThen (normalizeNode e from) (\<lambda>from'.
     andThen (mapE (normalizeNode e) toArray) (\<lambda>toArray'.
       addDependencyP g from' toArray'))"

text \<open>
  Own properties of a plain object, in the order the language enumerates them: array-index
  names ascending, then the other names in insertion order. \<open>objSet\<close> is the
  assignment \<^verbatim>\<open>obj[k] = v\<close> for a name other than \<^verbatim>\<open>__proto__\<close> (which names no own
  property; each use below says what it does with that name).
\<close>

definition parseDigits :: "string \<Rightarrow> int" where
  "parseDigits s = foldl (\<lambda>acc c. 10 * acc + (of_char c - 48)) 0 s"

definition arrayIndex :: "string \<Rightarrow> int option" where
  "arrayIndex s =
     (if s \<noteq> [] \<and> list_all (\<lambda>c. c \<in> set ''0123456789'') s
         \<and> (length s = 1 \<or> hd s \<noteq> CHR ''0'') \<and> parseDigits s < 4294967295
      then Some (parseDigits s) else None)"

fun insertIndexed :: "int \<Rightarrow> string \<Rightarrow> 'v \<Rightarrow> (string \<times> 'v) list \<Rightarrow> (string \<times> 'v) list" where
  "insertIndexed i k v [] = [(k, v)]"
| "insertIndexed i k v (p # ps) =
     (case arrayIndex (fst p) of
        Some j \<Rightarrow> if j < i then p # insertIndexed i k v ps else (k, v) # p # ps
      | None \<Rightarrow> (k, v) # p # ps)"

definition objSet :: "string \<Rightarrow> 'v \<Rightarrow> (string \<times> 'v) list \<Rightarrow> (string \<times> 'v) list" where
  "objSet k v obj =
     (if map_of obj k \<noteq> None then AList.update k v obj
      else case arrayIndex k of Some i \<Rightarrow> insertIndexed i k v obj | None \<Rightarrow> obj @ [(k, v)])"

text \<open>
  \<^verbatim>\<open>Object.assign(target, newData)\<close> as \<^verbatim>\<open>#mergeNodeData\<close> (lines 382-388) uses it, the
  target being what the node carries.
\<close>

definition assignProps :: "(string \<times> string) list \<Rightarrow> (string \<times> string) list \<Rightarrow> (string \<times> string) list" where
  "assignProps ps newData = foldl (\<lambda>acc (k, v). objSet k v acc) ps newData"

definition objectAssign :: "nodeData \<Rightarrow> (string \<times> string) list \<Rightarrow> error + nodeData" where
  "objectAssign target newData =
     (if ''__proto__'' \<in> fst ` set newData then Inl NotModelled
      else case target of
          DUndefined \<Rightarrow> Inl TypeError
        | DString s \<Rightarrow>
            (if list_all (\<lambda>(k, v). arrayIndex k = None \<and> k \<noteq> ''length'') newData
             then Inr (DStringObject s (assignProps [] newData)) else Inl NotModelled)
        | DObject ps \<Rightarrow> Inr (DObject (assignProps ps newData))
        | DStringObject s ps \<Rightarrow>
            (if list_all (\<lambda>(k, v). arrayIndex k = None \<and> k \<noteq> ''length'') newData
             then Inr (DStringObject s (assignProps ps newData)) else Inl NotModelled))"

definition mergeNodeData :: "depGraph \<Rightarrow> node \<Rightarrow> (string \<times> string) list \<Rightarrow> error + depGraph" where
  "mergeNodeData g name newData =
     (if hasNode g name
      then andThen (getNodeData g name) (\<lambda>d.
           andThen (objectAssign d newData) (\<lambda>d'. setNodeData g name d'))
      else setNodeData g name (DObject newData))"

definition isConfigurationApiConsumer :: "depGraph \<Rightarrow> node \<Rightarrow> bool" where
  "isConfigurationApiConsumer g nodeName =
     (case map_of (nodes g) nodeName of
        None \<Rightarrow> False
      | Some d \<Rightarrow> dataProp d ''consumes'' = Some CONFIGAPI_DATA_KEY)"

text \<open>\<^verbatim>\<open>addDependencyConsumesCollection\<close> (lines 398-425).\<close>

definition addDependencyConsumesCollection ::
  "env \<Rightarrow> depGraph \<Rightarrow> jsval \<Rightarrow> string \<Rightarrow> error + depGraph" where
  "addDependencyConsumesCollection e g from collectionName =
     andThen (normalizeNode e from) (\<lambda>nodeName.
     let collectionKey = Some (getCollectionKeyForEntry collectionName) in
     andThen (addDependencyP g nodeName [collectionKey]) (\<lambda>g1.
     andThen (isUserConfigCollectionName e collectionName) (\<lambda>isApi.
     andThen (if isApi then mergeNodeData g1 nodeName [(''consumes'', CONFIGAPI_DATA_KEY)]
              else Inr g1) (\<lambda>g2.
     let allKey = Some (getCollectionKeyForEntry SPECIAL_ALL_COLLECTION_NAME) in
     if collectionName = SPECIAL_KEYS_COLLECTION_NAME then addDependencyP g2 collectionKey [allKey]
     else if collectionName = SPECIAL_ALL_COLLECTION_NAME
     then addDependencyP g2 collectionKey [Some (getCollectionKeyForEntry SPECIAL_KEYS_COLLECTION_NAME)]
     else andThen (isUserConfigCollectionName e collectionName) (\<lambda>isApi2.
          if isApi2 then addDependencyP g2 collectionKey [allKey] else Inr g2)))))"

text \<open>\<^verbatim>\<open>addDependencyPublishesToCollection\<close> (lines 428-449).\<close>

definition addDependencyPublishesToCollection ::
  "env \<Rightarrow> depGraph \<Rightarrow> jsval \<Rightarrow> string \<Rightarrow> error + depGraph" where
  "addDependencyPublishesToCollection e g from collectionName =
     andThen (normalizeNode e from) (\<lambda>normalizedFrom.
     let key = Some (getCollectionKeyForEntry collectionName) in
     andThen (if collectionName = SPECIAL_ALL_COLLECTION_NAME \<and> isConfigurationApiConsumer g normalizedFrom
              then Inr g else addDependencyP g key [normalizedFrom]) (\<lambda>g1.
     andThen (isUserConfigCollectionName e collectionName) (\<lambda>isApi.
     if \<not> isApi
     then addDependencyP g1 (Some (getCollectionKeyForEntry SPECIAL_KEYS_COLLECTION_NAME)) [key]
     else Inr g1)))"

text \<open>
  \<^verbatim>\<open>getDependantsFor\<close> (lines 195-208) returns a fresh \<^verbatim>\<open>Set\<close> from its two guards and
  the array of \<^verbatim>\<open>directDependantsOf\<close> otherwise.
\<close>

datatype dependants = EmptySet | Array "node list"

definition getDependantsFor :: "env \<Rightarrow> depGraph \<Rightarrow> jsval \<Rightarrow> error + dependants" where
  "getDependantsFor e g node =
     (if \<not> truthy node then Inr EmptySet
      else andThen (normalizeNode e node) (\<lambda>node'.
           if \<not> hasNode g node' then Inr EmptySet
           else andThen (directDependantsOf g node') (\<lambda>ns. Inr (Array ns))))"

definition hasNodeN :: "env \<Rightarrow> depGraph \<Rightarrow> jsval \<Rightarrow> error + bool" where
  "hasNodeN e g node = andThen (normalizeNode e node) (\<lambda>node'. Inr (hasNode g node'))"

text \<open>A \<^verbatim>\<open>Set\<close> built from an array keeps the first occurrence of each element.\<close>

definition newSet :: "'a list \<Rightarrow> 'a list" where
  "newSet xs = foldl (\<lambda>acc x. if x \<in> set acc then acc else acc @ [x]) [] xs"

text \<open>
  \<^verbatim>\<open>findCollectionsRemovedFrom\<close> (lines 214-232). \<^verbatim>\<open>.map\<close> exists on an array only;
  \<^verbatim>\<open>.filter(Boolean)\<close> drops \<^verbatim>\<open>undefined\<close> and the empty string.
\<close>

definition findCollectionsRemovedFrom ::
  "env \<Rightarrow> depGraph \<Rightarrow> jsval \<Rightarrow> string set \<Rightarrow> error + string list" where
  "findCollectionsRemovedFrom e g node collectionNames =
     andThen (hasNodeN e g node) (\<lambda>known.
     if \<not> known then Inr []
     else andThen (getDependantsFor e g node) (\<lambda>deps.
          case deps of
            EmptySet \<Rightarrow> Inl TypeError
          | Array entries \<Rightarrow>
              andThen (mapE getTagName entries) (\<lambda>names.
              let prevDeps = concat (map (\<lambda>n. case n of None \<Rightarrow> [] | Some t \<Rightarrow> if t = [] then [] else [t]) names);
                  prevDepsSet = newSet prevDeps
              in Inr (filter (\<lambda>dep. dep \<notin> collectionNames) prevDepsSet))))"

text \<open>\<^verbatim>\<open>resetNode\<close> (lines 234-249).\<close>

definition resetNode :: "env \<Rightarrow> depGraph \<Rightarrow> jsval \<Rightarrow> error + depGraph" where
  "resetNode e g node =
     andThen (normalizeNode e node) (\<lambda>node'.
     if \<not> hasNode g node' then Inr g
     else andThen (directDependenciesOf g node') (\<lambda>deps.
          Inr (foldl (\<lambda>acc dep. removeDependency acc node' dep) g deps)))"

text \<open>\<^verbatim>\<open>getTemplatesThatConsumeCollections\<close> (lines 251-268); the result is a \<^verbatim>\<open>Set\<close>.\<close>

definition consumerStep :: "depGraph \<Rightarrow> string list \<Rightarrow> node \<Rightarrow> error + string list" where
  "consumerStep g templates node =
     (case node of
        None \<Rightarrow> Inl TypeError
      | Some s \<Rightarrow>
          if \<not> prefix COLLECTION_PREFIX s
          then andThen (getNodeData g node) (\<lambda>d.
               if \<not> isLayoutData d then Inr (if s \<in> set templates then templates else templates @ [s])
               else Inr templates)
          else Inr templates)"

definition getTemplatesThatConsumeCollections :: "depGraph \<Rightarrow> string list \<Rightarrow> error + string list" where
  "getTemplatesThatConsumeCollections g collectionNames =
     foldE (\<lambda>templates name.
        let collectionKey = Some (getCollectionKeyForEntry name) in
        if \<not> hasNode g collectionKey then Inr templates
        else andThen (dependantsOf g collectionKey) (\<lambda>ns. foldE (consumerStep g) templates ns))
      [] collectionNames"

text \<open>\<^verbatim>\<open>getLayoutsUsedBy\<close> (lines 270-293).\<close>

definition getLayoutsUsedBy :: "env \<Rightarrow> depGraph \<Rightarrow> jsval \<Rightarrow> error + node list" where
  "getLayoutsUsedBy e g node =
     andThen (normalizeNode e node) (\<lambda>node'.
     if \<not> hasNode g node' then Inr []
     else andThen (getNodeData g node') (\<lambda>d.
          let layouts = (if isLayoutData d then [node'] else []) in
          andThen (dependantsOf g node') (\<lambda>ns.
          foldE (\<lambda>acc n. andThen (getNodeData g n) (\<lambda>dn.
                   Inr (if isLayoutData dn then acc @ [n] else acc))) layouts ns)))"

text \<open>
  \<^verbatim>\<open>getDependencies\<close> (lines 325-338): \<open>None\<close> is the result \<^verbatim>\<open>false\<close> for an unknown
  node. The static \<^verbatim>\<open>removeLayoutNodes(graph, nodeList)\<close> (lines 98-106) is
  \<open>removeLayoutNodesOf\<close>.
\<close>

definition truthyNode :: "node \<Rightarrow> bool" where
  "truthyNode n = (case n of None \<Rightarrow> False | Some s \<Rightarrow> s \<noteq> [])"

definition removeLayoutNodesOf :: "depGraph \<Rightarrow> node list \<Rightarrow> error + node list" where
  "removeLayoutNodesOf graph nodeList =
     foldE (\<lambda>acc n. andThen (getNodeData graph n) (\<lambda>d.
              Inr (if isLayoutData d then acc else acc @ [n]))) [] nodeList"

definition getDependencies :: "env \<Rightarrow> depGraph \<Rightarrow> jsval \<Rightarrow> bool \<Rightarrow> error + node list option" where
  "getDependencies e g node includeLayouts =
     andThen (normalizeNode e node) (\<lambda>node'.
     if \<not> hasNode g node' then Inr None
     else andThen (dependenciesOf g node') (\<lambda>deps.
          if includeLayouts then Inr (Some (filter truthyNode deps))
          else andThen (removeLayoutNodesOf g deps) (\<lambda>ns. Inr (Some ns))))"

text \<open>
  \<^verbatim>\<open>getTemplateOrder\<close> (lines 496-514). The test for the redundant ending joins the last
  three entries with commas and compares strings; \<^verbatim>\<open>join\<close> renders \<^verbatim>\<open>undefined\<close> as the
  empty string.
\<close>

fun joinComma :: "node list \<Rightarrow> string" where
  "joinComma [] = []"
| "joinComma [n] = (case n of None \<Rightarrow> [] | Some s \<Rightarrow> s)"
| "joinComma (n # ns) = (case n of None \<Rightarrow> [] | Some s \<Rightarrow> s) @ '','' @ joinComma ns"

definition sliceLast :: "nat \<Rightarrow> 'a list \<Rightarrow> 'a list" where
  "sliceLast k xs = drop (length xs - k) xs"

definition sliceButLast :: "nat \<Rightarrow> 'a list \<Rightarrow> 'a list" where
  "sliceButLast k xs = take (length xs - k) xs"

definition getTemplateOrder :: "depGraph \<Rightarrow> node list" where
  "getTemplateOrder g =
     (let order = overallOrder g;
          allKey = Some (getCollectionKeyForEntry SPECIAL_ALL_COLLECTION_NAME);
          order1 = (if order = [] \<or> last order \<noteq> allKey then order @ [allKey] else order)
      in if joinComma (sliceLast 3 order1) = ''__collection:all,__collection:[keys],__collection:all''
         then sliceButLast 2 order1 else order1)"

section \<open>Layouts\<close>

text \<open>
  \<^verbatim>\<open>normalizeLayoutsObject\<close> (lines 186-193). The argument is the layouts object as
  \<^verbatim>\<open>for ... in\<close> enumerates it: raw layout name and the array found under it. The result
  is a plain object, so its keys are strings (\<^verbatim>\<open>undefined\<close> becomes the name
  \<^verbatim>\<open>undefined\<close>) in own-property order. A normalized name \<^verbatim>\<open>__proto__\<close> would replace the
  object's prototype by the array; that is outside the model.
\<close>

definition normalizeLayoutsObject ::
  "env \<Rightarrow> (string \<times> jsval list) list \<Rightarrow> error + (string \<times> node list) list" where
  "normalizeLayoutsObject e layouts =
     foldE (\<lambda>out (rawLayout, entries).
        andThen (normalizeNode e (JSString rawLayout)) (\<lambda>layout.
        andThen (mapE (normalizeNode e) entries) (\<lambda>entries'.
        if nodeToString layout = ''__proto__'' then Inl NotModelled
        else Inr (objSet (nodeToString layout) entries' out))))
      [] layouts"

text \<open>
  \<^verbatim>\<open>removeLayoutNodes(normalizedLayouts)\<close> (lines 108-123). \<^verbatim>\<open>normalizedLayouts[node]\<close> is
  truthy for an own key (an array) and for a name inherited from \<^verbatim>\<open>Object.prototype\<close>.
\<close>

definition objectPrototypeNames :: "string list" where
  "objectPrototypeNames =
     [''constructor'', ''__defineGetter__'', ''__defineSetter__'', ''hasOwnProperty'',
      ''__lookupGetter__'', ''__lookupSetter__'', ''isPrototypeOf'', ''propertyIsEnumerable'',
      ''toString'', ''valueOf'', ''__proto__'', ''toLocaleString'']"

definition truthyMember :: "(string \<times> 'v) list \<Rightarrow> node \<Rightarrow> bool" where
  "truthyMember obj n =
     (nodeToString n \<in> set objectPrototypeNames \<or> map_of obj (nodeToString n) \<noteq> None)"

definition removeLayoutNodes :: "depGraph \<Rightarrow> (string \<times> node list) list \<Rightarrow> error + depGraph" where
  "removeLayoutNodes g normalizedLayouts =
     foldE (\<lambda>acc n. andThen (getNodeData acc n) (\<lambda>d.
              if \<not> isLayoutData d then Inr acc
              else if \<not> truthyMember normalizedLayouts n then Inr (removeNode acc n)
              else Inr acc))
       g (overallOrder g)"

text \<open>\<^verbatim>\<open>addLayoutsToMap\<close> (lines 126-154).\<close>

definition addLayout :: "env \<Rightarrow> depGraph \<Rightarrow> string \<times> node list \<Rightarrow> error + depGraph" where
  "addLayout e g entry =
     (let layout = fst entry; layoutData = DObject [(''type'', LAYOUT_KEY)] in
      andThen (if \<not> hasNode g (Some layout) then Inr (addNode g (Some layout) (Some layoutData))
               else setNodeData g (Some layout) layoutData) (\<lambda>g1.
      andThen (foldE (\<lambda>acc pageTemplate. addDependency e acc (jsOfNode pageTemplate) [JSString layout])
                 g1 (snd entry)) (\<lambda>g2.
      if (case templateConfig e of None \<Rightarrow> False | Some tc \<Rightarrow> shouldSpiderJavaScriptDependencies tc)
      then addDependency e g2 (JSString layout) (map JSString (javaScriptDependencies e layout))
      else Inr g2)))"

definition addLayoutsToMap :: "env \<Rightarrow> depGraph \<Rightarrow> (string \<times> jsval list) list \<Rightarrow> error + depGraph" where
  "addLayoutsToMap e g layouts =
     andThen (normalizeLayoutsObject e layouts) (\<lambda>normalizedLayouts.
     andThen (removeLayoutNodes g normalizedLayouts) (\<lambda>g1.
       foldE (addLayout e) g1 normalizedLayouts))"

section \<open>Persistence\<close>

text \<open>
  The text \<^verbatim>\<open>stringify\<close> writes and \<^verbatim>\<open>restore\<close> reads is JSON; the model works on the
  tree of that text (\<^verbatim>\<open>JSON.parse\<close> of what \<^verbatim>\<open>JSON.stringify\<close> printed gives the same
  tree back, own properties in the same order). Numbers do not occur in what the graph
  stores and are left out of the tree.
\<close>

datatype json =
    JNull
  | JBool bool
  | JString string
  | JArray "json list"
  | JObject "(string \<times> json) list"

text \<open>
  The replacer of \<^verbatim>\<open>stringify\<close> (lines 516-529) copies a \<^verbatim>\<open>Map\<close> into a plain object,
  \<^verbatim>\<open>obj[k] = v\<close>: the key is turned into a string, and the name \<^verbatim>\<open>__proto__\<close> makes no own
  property, so that entry is not written. \<^verbatim>\<open>JSON.stringify\<close> then leaves out a property
  whose value is \<^verbatim>\<open>undefined\<close>, writes \<^verbatim>\<open>undefined\<close> inside an array as \<^verbatim>\<open>null\<close>, and
  writes a \<^verbatim>\<open>String\<close> object as its string, without the properties set on it.
\<close>

definition mapToObject :: "(node \<times> 'v) list \<Rightarrow> (string \<times> 'v) list" where
  "mapToObject m =
     foldl (\<lambda>obj (k, v). if nodeToString k = ''__proto__'' then obj else objSet (nodeToString k) v obj) [] m"

definition serializeData :: "nodeData \<Rightarrow> json option" where
  "serializeData d =
     (case d of
        DUndefined \<Rightarrow> None
      | DString s \<Rightarrow> Some (JString s)
      | DObject ps \<Rightarrow> Some (JObject (map (\<lambda>(k, v). (k, JString v)) ps))
      | DStringObject s ps \<Rightarrow> Some (JString s))"

definition serializeEdges :: "node list \<Rightarrow> json" where
  "serializeEdges ns = JArray (map (\<lambda>n. case n of None \<Rightarrow> JNull | Some s \<Rightarrow> JString s) ns)"

definition stringify :: "depGraph \<Rightarrow> json" where
  "stringify g =
     JObject
       [(''nodes'', JObject (concat (map (\<lambda>(k, d). case serializeData d of None \<Rightarrow> [] | Some j \<Rightarrow> [(k, j)])
                                        (mapToObject (nodes g))))),
        (''outgoingEdges'', JObject (map (\<lambda>(k, ns). (k, serializeEdges ns)) (mapToObject (outgoingEdges g)))),
        (''incomingEdges'', JObject (map (\<lambda>(k, ns). (k, serializeEdges ns)) (mapToObject (incomingEdges g)))),
        (''circular'', JBool True)]"

text \<open>
  \<^verbatim>\<open>restore\<close> (lines 531-545) walks the parsed value with two \<^verbatim>\<open>for ... in\<close> loops and
  calls \<^verbatim>\<open>set\<close> on \<^verbatim>\<open>graph[key]\<close>. Only the three tables have that method: any other
  top-level key with something to enumerate under it raises a \<^verbatim>\<open>TypeError\<close>. What is
  stored is the parsed value; the model can hold strings and objects of strings as node
  data and arrays of strings as edges.
\<close>

definition forInEntries :: "json \<Rightarrow> (string \<times> json) list" where
  "forInEntries j =
     (case j of
        JObject kvs \<Rightarrow> kvs
      | JArray xs \<Rightarrow> zip (map showNat [0 ..< length xs]) xs
      | JString s \<Rightarrow> zip (map showNat [0 ..< length s]) (map (\<lambda>c. JString [c]) s)
      | _ \<Rightarrow> [])"

definition dataOfJson :: "json \<Rightarrow> error + nodeData" where
  "dataOfJson j =
     (case j of
        JString s \<Rightarrow> Inr (DString s)
      | JObject kvs \<Rightarrow>
          andThen (mapE (\<lambda>(k, v). case v of JString t \<Rightarrow> Inr (k, t) | _ \<Rightarrow> Inl NotModelled) kvs)
            (\<lambda>ps. Inr (DObject ps))
      | _ \<Rightarrow> Inl NotModelled)"

definition edgesOfJson :: "json \<Rightarrow> error + node list" where
  "edgesOfJson j =
     (case j of
        JArray xs \<Rightarrow> mapE (\<lambda>x. case x of JString s \<Rightarrow> Inr (Some s) | _ \<Rightarrow> Inl NotModelled) xs
      | _ \<Rightarrow> Inl NotModelled)"

definition restoreEntry :: "string \<Rightarrow> depGraph \<Rightarrow> string \<times> json \<Rightarrow> error + depGraph" where
  "restoreEntry key graph entry =
     (if key = ''nodes''
      then andThen (dataOfJson (snd entry)) (\<lambda>d.
             Inr (graph\<lparr> nodes := AList.update (Some (fst entry)) d (nodes graph) \<rparr>))
      else if key = ''outgoingEdges''
      then andThen (edgesOfJson (snd entry)) (\<lambda>ns.
             Inr (graph\<lparr> outgoingEdges := AList.update (Some (fst entry)) ns (outgoingEdges graph) \<rparr>))
      else if key = ''incomingEdges''
      then andThen (edgesOfJson (snd entry)) (\<lambda>ns.
             Inr (graph\<lparr> incomingEdges := AList.update (Some (fst entry)) ns (incomingEdges graph) \<rparr>))
      else Inl TypeError)"

definition restore :: "json \<Rightarrow> error + depGraph" where
  "restore persisted =
     foldE (\<lambda>graph (key, val). foldE (restoreEntry key) graph (forInEntries val))
       newDepGraph (forInEntries persisted)"

section \<open>Vocabulary of the properties\<close>

text \<open>
  An edge \<open>a \<rightarrow> b\<close> of the graph: both are nodes, \<open>b\<close> is recorded among the
  dependencies of \<open>a\<close> and \<open>a\<close> among the dependants of \<open>b\<close>.
\<close>

definition hasEdge :: "depGraph \<Rightarrow> node \<Rightarrow> node \<Rightarrow> bool" where
  "hasEdge g a b =
     (hasNode g a \<and> hasNode g b \<and> b \<in> set (edgesOf (outgoingEdges g) a)
        \<and> a \<in> set (edgesOf (incomingEdges g) b))"

definition collectionKey :: "string \<Rightarrow> node" where
  "collectionKey name = Some (getCollectionKeyForEntry name)"


text \<open>
  An environment for worked examples: names are already normal (the normalizer returns
  them unchanged), \<^verbatim>\<open>setCollectionApiNames(names)\<close> was called, and no template
  configuration is set, so layouts are not spidered for imports.
\<close>

definition plainEnv :: "string list \<Rightarrow> env" where
  "plainEnv names =
     \<lparr> fullNormalization = (\<lambda>s. s),
       javaScriptDependencies = (\<lambda>layout. []),
       templateConfig = None,
       cachedUserConfigurationCollectionApiNames = Some names \<rparr>"

text \<open>Whether the surrounding pipeline asks for the JavaScript imports of layouts.\<close>

definition spiders :: "env \<Rightarrow> bool" where
  "spiders e = (case templateConfig e of None \<Rightarrow> False | Some tc \<Rightarrow> shouldSpiderJavaScriptDependencies tc)"

text \<open>The collection a node stands for, when its name is a collection key.\<close>

definition tagOf :: "node \<Rightarrow> string option" where
  "tagOf n = (case n of None \<Rightarrow> None
     | Some s \<Rightarrow> if prefix COLLECTION_PREFIX s then Some (drop (length COLLECTION_PREFIX) s) else None)"

text \<open>
  The last step of \<^verbatim>\<open>addDependencyConsumesCollection\<close> (lines 410-424), the chain that
  orders the meta-collections, as a function of the graph it starts from.
\<close>

definition consumesTail :: "string list \<Rightarrow> string \<Rightarrow> depGraph \<Rightarrow> error + depGraph" where
  "consumesTail names name g2 =
     (if name = SPECIAL_KEYS_COLLECTION_NAME
      then addDependencyP g2 (collectionKey name) [collectionKey SPECIAL_ALL_COLLECTION_NAME]
      else if name = SPECIAL_ALL_COLLECTION_NAME
      then addDependencyP g2 (collectionKey name) [collectionKey SPECIAL_KEYS_COLLECTION_NAME]
      else if name \<in> set names
      then addDependencyP g2 (collectionKey name) [collectionKey SPECIAL_ALL_COLLECTION_NAME]
      else Inr g2)"

text \<open>What \<^verbatim>\<open>join\<close> writes for an entry.\<close>

definition nodeString :: "node \<Rightarrow> string" where
  "nodeString n = (case n of None \<Rightarrow> [] | Some s \<Rightarrow> s)"

section \<open>Moving a call to the example environment\<close>

text \<open>
  A call depends on its environment only through the normalized name and through whether
  the collection is one of the configuration API's, so it can be replayed in a
  \<open>plainEnv\<close>, where everything is concrete.
\<close>

lemma normalizeNode_JSString:
  "normalizeNode e (JSString s) = Inr (if s = [] then None else Some (fullNormalization e s))"
  by simp

lemma names_plainEnv: "userConfigurationCollectionApiNames (plainEnv names) = Inr names"
  by (simp add: userConfigurationCollectionApiNames_def plainEnv_def)

lemma isUserConfigCollectionName_plain:
  assumes "userConfigurationCollectionApiNames e = Inr names"
  shows "isUserConfigCollectionName e name
           = isUserConfigCollectionName (plainEnv (if name \<in> set names then [name] else [])) name"
  using assms by (simp add: isUserConfigCollectionName_def names_plainEnv andThen_def)

lemma publishes_plainEnv:
  assumes "userConfigurationCollectionApiNames e = Inr names" and "fullNormalization e s = s"
  shows "addDependencyPublishesToCollection e g (JSString s) name
           = addDependencyPublishesToCollection (plainEnv (if name \<in> set names then [name] else [])) g (JSString s) name"
  unfolding addDependencyPublishesToCollection_def normalizeNode_JSString
    isUserConfigCollectionName_plain[OF assms(1)]
  using assms(2) by (simp add: plainEnv_def)

lemma consumes_plainEnv:
  assumes "userConfigurationCollectionApiNames e = Inr names" and "fullNormalization e s = s"
  shows "addDependencyConsumesCollection e g (JSString s) name
           = addDependencyConsumesCollection (plainEnv (if name \<in> set names then [name] else [])) g (JSString s) name"
  unfolding addDependencyConsumesCollection_def normalizeNode_JSString
    isUserConfigCollectionName_plain[OF assms(1)]
  using assms(2) by (simp add: plainEnv_def)

lemma addDependency_strings_plainEnv:
  assumes "fullNormalization e s = s" and "fullNormalization e t = t"
  shows "addDependency e g (JSString s) [JSString t] = addDependency (plainEnv []) g (JSString s) [JSString t]"
  unfolding addDependency_def normalizeNode_JSString mapE.simps
  using assms by (simp add: plainEnv_def)

lemma getLayoutsUsedBy_plainEnv:
  assumes "fullNormalization e s = s"
  shows "getLayoutsUsedBy e g (JSString s) = getLayoutsUsedBy (plainEnv []) g (JSString s)"
  unfolding getLayoutsUsedBy_def normalizeNode_JSString
  using assms by (simp add: plainEnv_def)

lemma base_layout_plainEnv:
  assumes "\<not> spiders e"
    and "fullNormalization e ''base.html'' = ''base.html''"
    and "fullNormalization e ''post1.md'' = ''post1.md''"
    and "fullNormalization e ''post2.md'' = ''post2.md''"
  shows "addLayoutsToMap e g [(''base.html'', [JSString ''post1.md'', JSString ''post2.md''])]
       = addLayoutsToMap (plainEnv []) g [(''base.html'', [JSString ''post1.md'', JSString ''post2.md''])]"
proof -
  have n: "normalizeLayoutsObject e [(''base.html'', [JSString ''post1.md'', JSString ''post2.md''])]
      = Inr [(''base.html'', [Some ''post1.md'', Some ''post2.md''])]"
    if "fullNormalization e ''base.html'' = ''base.html''"
    and "fullNormalization e ''post1.md'' = ''post1.md''"
    and "fullNormalization e ''post2.md'' = ''post2.md''" for e
    using that
    by (simp add: normalizeLayoutsObject_def andThen_def nodeToString_def objSet_def arrayIndex_def)
  have p: "\<not> spiders (plainEnv [])" "fullNormalization (plainEnv []) x = x" for x
    by (simp_all add: spiders_def plainEnv_def)
  have a: "addLayout e g (''base.html'', [Some ''post1.md'', Some ''post2.md''])
      = addLayout (plainEnv []) g (''base.html'', [Some ''post1.md'', Some ''post2.md''])" for g
    using assms(1) p(1)
    by (simp add: addLayout_def spiders_def[symmetric] jsOfNode_def Let_def
        addDependency_strings_plainEnv[OF assms(3) assms(2)]
        addDependency_strings_plainEnv[OF assms(4) assms(2)] cong: sum.case_cong)
  show ?thesis
    unfolding addLayoutsToMap_def n[OF assms(2-4)] n[OF p(2) p(2) p(2)]
    by (simp add: andThen_def a cong: sum.case_cong)
qed

lemma other_layout_plainEnv:
  assumes "\<not> spiders e"
    and "fullNormalization e ''other.html'' = ''other.html''"
    and "fullNormalization e ''post1.md'' = ''post1.md''"
  shows "addLayoutsToMap e g [(''other.html'', [JSString ''post1.md''])]
       = addLayoutsToMap (plainEnv []) g [(''other.html'', [JSString ''post1.md''])]"
proof -
  have n: "normalizeLayoutsObject e [(''other.html'', [JSString ''post1.md''])]
      = Inr [(''other.html'', [Some ''post1.md''])]"
    if "fullNormalization e ''other.html'' = ''other.html''"
    and "fullNormalization e ''post1.md'' = ''post1.md''" for e
    using that
    by (simp add: normalizeLayoutsObject_def andThen_def nodeToString_def objSet_def arrayIndex_def)
  have p: "\<not> spiders (plainEnv [])" "fullNormalization (plainEnv []) x = x" for x
    by (simp_all add: spiders_def plainEnv_def)
  have a: "addLayout e g (''other.html'', [Some ''post1.md''])
      = addLayout (plainEnv []) g (''other.html'', [Some ''post1.md''])" for g
    using assms(1) p(1)
    by (simp add: addLayout_def spiders_def[symmetric] jsOfNode_def Let_def
        addDependency_strings_plainEnv[OF assms(3) assms(2)] cong: sum.case_cong)
  show ?thesis
    unfolding addLayoutsToMap_def n[OF assms(2-3)] n[OF p(2) p(2)]
    by (simp add: andThen_def a cong: sum.case_cong)
qed

section \<open>Sets built from arrays, and collection names of nodes\<close>

lemma set_newSet_aux: "set (foldl (\<lambda>acc x. if x \<in> set acc then acc else acc @ [x]) acc xs) = set acc \<union> set xs"
  by (induction xs arbitrary: acc) auto

lemma set_newSet: "set (newSet xs) = set xs"
  by (simp add: newSet_def set_newSet_aux)

lemma mapE_getTagName: "None \<notin> set ns \<Longrightarrow> mapE getTagName ns = Inr (map tagOf ns)"
proof (induction ns)
  case Nil
  show ?case by simp
next
  case (Cons a ns)
  then obtain s where "a = Some s" by (cases a) auto
  with Cons show ?case by (simp add: getTagName_def tagOf_def)
qed

lemma tagOf_eq_Some: "tagOf n = Some t \<longleftrightarrow> n = collectionKey t"
  by (auto simp: tagOf_def collectionKey_def getCollectionKeyForEntry_def prefix_def split: option.splits)

lemma mem_nonEmptyTags:
  "t \<in> set (concat (map (\<lambda>n. case n of None \<Rightarrow> [] | Some u \<Rightarrow> if u = [] then [] else [u]) ms))
     \<longleftrightarrow> Some t \<in> set ms \<and> t \<noteq> []"
  by (induction ms) (auto split: option.splits)

section \<open>What the graph operations change\<close>

lemma edgesOf_update: "edgesOf (AList.update k v al) k' = (if k' = k then v else edgesOf al k')"
  by (simp add: edgesOf_def update_conv')

lemma addNodeP_None: "addNodeP g n None = addNode g n None"
  by (simp add: addNodeP_def addNode_def)

lemma nodes_addNode:
  "map_of (nodes (addNode g n d)) m =
     (if hasNode g n \<or> m \<noteq> n then map_of (nodes g) m
      else Some (case d of None \<Rightarrow> dataOfNode n | Some x \<Rightarrow> x))"
  by (simp add: addNode_def update_conv')

lemma hasNode_addNode: "hasNode (addNode g n d) m \<longleftrightarrow> hasNode g m \<or> m = n"
  by (auto simp: hasNode_def nodes_addNode)

lemma out_addNode:
  "edgesOf (outgoingEdges (addNode g n d)) m =
     (if hasNode g n \<or> m \<noteq> n then edgesOf (outgoingEdges g) m else [])"
  by (simp add: addNode_def edgesOf_update)

lemma in_addNode:
  "edgesOf (incomingEdges (addNode g n d)) m =
     (if hasNode g n \<or> m \<noteq> n then edgesOf (incomingEdges g) m else [])"
  by (simp add: addNode_def edgesOf_update)

lemma hasEdge_addNode: "hasEdge (addNode g n d) a b \<longleftrightarrow> hasEdge g a b"
  by (auto simp: hasEdge_def hasNode_addNode out_addNode in_addNode)

lemma set_edgesOf_pushUnique:
  "set (edgesOf (pushUnique k x edges) m) = set (edgesOf edges m) \<union> (if m = k then {x} else {})"
  by (auto simp: pushUnique_def edgesOf_update)

lemma graphAddDependency_Inr:
  assumes "hasNode g a" "hasNode g b"
  shows "graphAddDependency g a b =
           Inr (g\<lparr> outgoingEdges := pushUnique a b (outgoingEdges g),
                    incomingEdges := pushUnique b a (incomingEdges g) \<rparr>)"
  using assms by (simp add: graphAddDependency_def)

lemma addDependencyStep_Inr:
  assumes "hasNode g from"
  shows "\<exists>g'. addDependencyStep from g to = Inr g'
           \<and> (\<forall>m. map_of (nodes g') m = map_of (nodes (addNode g to None)) m)
           \<and> (\<forall>a b. hasEdge g' a b \<longleftrightarrow> hasEdge g a b \<or> (a = from \<and> b = to \<and> to \<noteq> from))"
proof (cases "from = to")
  case True
  then show ?thesis
    by (simp add: addDependencyStep_def addNodeP_None hasEdge_addNode)
next
  case False
  let ?g1 = "addNode g to None"
  have h: "hasNode ?g1 from" "hasNode ?g1 to" using assms by (simp_all add: hasNode_addNode)
  let ?g' = "?g1\<lparr> outgoingEdges := pushUnique from to (outgoingEdges ?g1),
                    incomingEdges := pushUnique to from (incomingEdges ?g1) \<rparr>"
  have r: "addDependencyStep from g to = Inr ?g'"
    using False graphAddDependency_Inr[OF h] by (simp add: addDependencyStep_def addNodeP_None Let_def)
  have e: "hasEdge ?g' a b \<longleftrightarrow> hasEdge ?g1 a b \<or> (a = from \<and> b = to)" for a b
    using h by (auto simp: hasEdge_def hasNode_def set_edgesOf_pushUnique)
  show ?thesis
    using r e False by (auto simp: hasEdge_addNode)
qed

lemma nodes_addNode_None_keep:
  "map_of (nodes g) m = Some d \<Longrightarrow> map_of (nodes (addNode g n x)) m = Some d"
  by (auto simp: nodes_addNode hasNode_def)

lemma addDependencyP_Inr_aux:
  assumes "hasNode g from"
  shows "\<exists>g'. foldE (addDependencyStep from) g tos = Inr g'
           \<and> (\<forall>m d. map_of (nodes g) m = Some d \<longrightarrow> map_of (nodes g') m = Some d)
           \<and> (\<forall>m. map_of (nodes g') m =
                  (if hasNode g m then map_of (nodes g) m
                   else if m \<in> set tos then Some (dataOfNode m) else None))
           \<and> (\<forall>a b. hasEdge g' a b \<longleftrightarrow> hasEdge g a b \<or> (a = from \<and> b \<in> set tos \<and> b \<noteq> from))"
  using assms
proof (induction tos arbitrary: g)
  case Nil
  then show ?case by (auto simp: hasNode_def)
next
  case (Cons to tos)
  from addDependencyStep_Inr[OF Cons.prems, of to] obtain g1 where
    s: "addDependencyStep from g to = Inr g1"
    and n: "\<And>m. map_of (nodes g1) m = map_of (nodes (addNode g to None)) m"
    and e: "\<And>a b. hasEdge g1 a b \<longleftrightarrow> hasEdge g a b \<or> (a = from \<and> b = to \<and> to \<noteq> from)"
    by blast
  have h1: "hasNode g1 m \<longleftrightarrow> hasNode g m \<or> m = to" for m
    using n[of m] hasNode_addNode[of g to None m] by (simp add: hasNode_def)
  then have "hasNode g1 from" using Cons.prems by simp
  from Cons.IH[OF this] obtain g' where
    f: "foldE (addDependencyStep from) g1 tos = Inr g'"
    and n': "\<And>m. map_of (nodes g') m =
                  (if hasNode g1 m then map_of (nodes g1) m
                   else if m \<in> set tos then Some (dataOfNode m) else None)"
    and e': "\<And>a b. hasEdge g' a b \<longleftrightarrow> hasEdge g1 a b \<or> (a = from \<and> b \<in> set tos \<and> b \<noteq> from)"
    by blast
  have nn: "map_of (nodes g') m =
                  (if hasNode g m then map_of (nodes g) m
                   else if m \<in> set (to # tos) then Some (dataOfNode m) else None)" for m
    using n'[of m] n[of m] h1[of m] by (auto simp: nodes_addNode hasNode_def)
  have keep: "map_of (nodes g) m = Some d \<Longrightarrow> map_of (nodes g') m = Some d" for m d
    using nn[of m] by (simp add: hasNode_def)
  have ee: "hasEdge g' a b \<longleftrightarrow> hasEdge g a b \<or> (a = from \<and> b \<in> set (to # tos) \<and> b \<noteq> from)" for a b
    using e'[of a b] e[of a b] by auto
  from s f have "foldE (addDependencyStep from) g (to # tos) = Inr g'" by simp
  with nn keep ee show ?case by blast
qed

lemma addDependencyP_Inr:
  "\<exists>g'. addDependencyP g from tos = Inr g'
           \<and> (\<forall>m d. map_of (nodes g) m = Some d \<longrightarrow> map_of (nodes g') m = Some d)
           \<and> (\<forall>m. map_of (nodes g') m =
                  (if hasNode g m then map_of (nodes g) m
                   else if m = from \<or> m \<in> set tos then Some (dataOfNode m) else None))
           \<and> (\<forall>a b. hasEdge g' a b \<longleftrightarrow> hasEdge g a b \<or> (a = from \<and> b \<in> set tos \<and> b \<noteq> from))"
proof -
  let ?g0 = "addNode g from None"
  have h0: "hasNode ?g0 from" by (simp add: hasNode_addNode)
  from addDependencyP_Inr_aux[OF h0, of tos] obtain g' where
    f: "foldE (addDependencyStep from) ?g0 tos = Inr g'"
    and n': "\<And>m. map_of (nodes g') m =
                  (if hasNode ?g0 m then map_of (nodes ?g0) m
                   else if m \<in> set tos then Some (dataOfNode m) else None)"
    and e': "\<And>a b. hasEdge g' a b \<longleftrightarrow> hasEdge ?g0 a b \<or> (a = from \<and> b \<in> set tos \<and> b \<noteq> from)"
    by blast
  have nn: "map_of (nodes g') m =
                  (if hasNode g m then map_of (nodes g) m
                   else if m = from \<or> m \<in> set tos then Some (dataOfNode m) else None)" for m
    using n'[of m] by (auto simp: nodes_addNode hasNode_addNode)
  have keep: "map_of (nodes g) m = Some d \<Longrightarrow> map_of (nodes g') m = Some d" for m d
    using nn[of m] by (simp add: hasNode_def)
  have ee: "hasEdge g' a b \<longleftrightarrow> hasEdge g a b \<or> (a = from \<and> b \<in> set tos \<and> b \<noteq> from)" for a b
    using e'[of a b] by (simp add: hasEdge_addNode)
  from f have "addDependencyP g from tos = Inr g'" by (simp add: addDependencyP_def addNodeP_None)
  with nn keep ee show ?thesis by blast
qed

lemma isUserConfigCollectionName_Inr:
  "userConfigurationCollectionApiNames e = Inr names \<Longrightarrow> isUserConfigCollectionName e name = Inr (name \<in> set names)"
  by (simp add: isUserConfigCollectionName_def andThen_def)

lemma collectionKey_eq: "collectionKey a = collectionKey b \<longleftrightarrow> a = b"
  by (simp add: collectionKey_def getCollectionKeyForEntry_def)

lemma objectAssign_consumes:
  assumes "objectAssign d [(''consumes'', c)] = Inr d'"
  shows "dataProp d' k = (if k = ''consumes'' then Some c else dataProp d k)"
  using assms
  by (cases d)
     (auto simp: objectAssign_def assignProps_def objSet_def arrayIndex_def dataProp_def update_conv'
           map_add_def split: if_splits option.splits)

lemma objectAssign_consumes_Inr:
  "d \<noteq> DUndefined \<Longrightarrow> \<exists>d'. objectAssign d [(''consumes'', c)] = Inr d'"
  by (cases d) (auto simp: objectAssign_def arrayIndex_def)

lemma hasEdge_nodes_update:
  "hasNode g n \<Longrightarrow> hasEdge (g\<lparr> nodes := AList.update n d (nodes g) \<rparr>) a b \<longleftrightarrow> hasEdge g a b"
  by (auto simp: hasEdge_def hasNode_def update_conv')

lemma mergeNodeData_Inr:
  assumes "mergeNodeData g n newData = Inr g'"
  shows "\<exists>d d'. map_of (nodes g) n = Some d \<and> objectAssign d newData = Inr d'
           \<and> g' = g\<lparr> nodes := AList.update n d' (nodes g) \<rparr>"
  using assms
  by (auto simp: mergeNodeData_def andThen_def getNodeData_def setNodeData_def hasNode_def
           split: if_splits sum.splits option.splits)

lemma mergeNodeData_consumes_Inr:
  assumes "map_of (nodes g) n = Some d" "d \<noteq> DUndefined"
  shows "\<exists>g'. mergeNodeData g n [(''consumes'', c)] = Inr g'"
  using assms objectAssign_consumes_Inr[OF assms(2), of c]
  by (auto simp: mergeNodeData_def andThen_def getNodeData_def setNodeData_def hasNode_def)

lemma consumes_unfold:
  assumes nn: "normalizeNode e from = Inr n"
    and names: "userConfigurationCollectionApiNames e = Inr names"
  shows "addDependencyConsumesCollection e g from name =
     andThen (addDependencyP g n [collectionKey name]) (\<lambda>g1.
     andThen (if name \<in> set names then mergeNodeData g1 n [(''consumes'', CONFIGAPI_DATA_KEY)] else Inr g1)
       (consumesTail names name))"
  unfolding addDependencyConsumesCollection_def nn isUserConfigCollectionName_Inr[OF names]
    collectionKey_def andThen_def Let_def consumesTail_def
  by (simp split: sum.splits)

lemma consumesTail_Inr:
  "\<exists>g'. consumesTail names name g2 = Inr g'
     \<and> (\<forall>m d. map_of (nodes g2) m = Some d \<longrightarrow> map_of (nodes g') m = Some d)
     \<and> (\<forall>a b. hasEdge g2 a b \<longrightarrow> hasEdge g' a b)
     \<and> (name = SPECIAL_KEYS_COLLECTION_NAME
          \<longrightarrow> hasEdge g' (collectionKey SPECIAL_KEYS_COLLECTION_NAME) (collectionKey SPECIAL_ALL_COLLECTION_NAME))
     \<and> (name = SPECIAL_ALL_COLLECTION_NAME
          \<longrightarrow> hasEdge g' (collectionKey SPECIAL_ALL_COLLECTION_NAME) (collectionKey SPECIAL_KEYS_COLLECTION_NAME))
     \<and> (name \<in> set names \<and> name \<noteq> SPECIAL_ALL_COLLECTION_NAME
          \<longrightarrow> hasEdge g' (collectionKey name) (collectionKey SPECIAL_ALL_COLLECTION_NAME))"
proof -
  have allkeys: "SPECIAL_ALL_COLLECTION_NAME \<noteq> SPECIAL_KEYS_COLLECTION_NAME"
    by (simp add: SPECIAL_ALL_COLLECTION_NAME_def SPECIAL_KEYS_COLLECTION_NAME_def)
  consider (keys) "name = SPECIAL_KEYS_COLLECTION_NAME"
    | (all) "name = SPECIAL_ALL_COLLECTION_NAME"
    | (api) "name \<noteq> SPECIAL_KEYS_COLLECTION_NAME" "name \<noteq> SPECIAL_ALL_COLLECTION_NAME" "name \<in> set names"
    | (none) "name \<noteq> SPECIAL_KEYS_COLLECTION_NAME" "name \<noteq> SPECIAL_ALL_COLLECTION_NAME" "name \<notin> set names"
    by blast
  then show ?thesis
  proof cases
    case keys
    from addDependencyP_Inr[of g2 "collectionKey name" "[collectionKey SPECIAL_ALL_COLLECTION_NAME]"]
    obtain g' where "addDependencyP g2 (collectionKey name) [collectionKey SPECIAL_ALL_COLLECTION_NAME] = Inr g'"
      "\<And>m d. map_of (nodes g2) m = Some d \<Longrightarrow> map_of (nodes g') m = Some d"
      "\<And>a b. hasEdge g' a b \<longleftrightarrow> hasEdge g2 a b \<or> (a = collectionKey name \<and> b \<in> set [collectionKey SPECIAL_ALL_COLLECTION_NAME] \<and> b \<noteq> collectionKey name)"
      by blast
    with keys allkeys show ?thesis
      by (intro exI[of _ g']) (auto simp: consumesTail_def collectionKey_eq)
  next
    case all
    from addDependencyP_Inr[of g2 "collectionKey name" "[collectionKey SPECIAL_KEYS_COLLECTION_NAME]"]
    obtain g' where "addDependencyP g2 (collectionKey name) [collectionKey SPECIAL_KEYS_COLLECTION_NAME] = Inr g'"
      "\<And>m d. map_of (nodes g2) m = Some d \<Longrightarrow> map_of (nodes g') m = Some d"
      "\<And>a b. hasEdge g' a b \<longleftrightarrow> hasEdge g2 a b \<or> (a = collectionKey name \<and> b \<in> set [collectionKey SPECIAL_KEYS_COLLECTION_NAME] \<and> b \<noteq> collectionKey name)"
      by blast
    with all allkeys show ?thesis
      by (intro exI[of _ g']) (auto simp: consumesTail_def collectionKey_eq)
  next
    case api
    from addDependencyP_Inr[of g2 "collectionKey name" "[collectionKey SPECIAL_ALL_COLLECTION_NAME]"]
    obtain g' where "addDependencyP g2 (collectionKey name) [collectionKey SPECIAL_ALL_COLLECTION_NAME] = Inr g'"
      "\<And>m d. map_of (nodes g2) m = Some d \<Longrightarrow> map_of (nodes g') m = Some d"
      "\<And>a b. hasEdge g' a b \<longleftrightarrow> hasEdge g2 a b \<or> (a = collectionKey name \<and> b \<in> set [collectionKey SPECIAL_ALL_COLLECTION_NAME] \<and> b \<noteq> collectionKey name)"
      by blast
    with api show ?thesis
      by (intro exI[of _ g']) (auto simp: consumesTail_def collectionKey_eq)
  next
    case none
    then show ?thesis by (intro exI[of _ g2]) (auto simp: consumesTail_def)
  qed
qed

lemma andThen_Inr: "andThen r f = Inr y \<longleftrightarrow> (\<exists>x. r = Inr x \<and> f x = Inr y)"
  by (cases r) (simp_all add: andThen_def)

lemma addDependencyP_keeps:
  assumes "addDependencyP g n ns = Inr g'" "map_of (nodes g) m = Some d"
  shows "map_of (nodes g') m = Some d"
proof -
  from addDependencyP_Inr[of g n ns] obtain g'' where
    "addDependencyP g n ns = Inr g''"
    "\<And>m d. map_of (nodes g) m = Some d \<Longrightarrow> map_of (nodes g'') m = Some d"
    by blast
  with assms show ?thesis by simp
qed

lemma addDependency_keeps_data:
  assumes "addDependency e g from tos = Inr g'" "map_of (nodes g) m = Some d"
  shows "map_of (nodes g') m = Some d"
proof -
  from assms(1) obtain n ns where "addDependencyP g n ns = Inr g'"
    unfolding addDependency_def andThen_Inr by blast
  then show ?thesis using assms(2) by (rule addDependencyP_keeps)
qed

lemma publishes_keeps_data:
  assumes "addDependencyPublishesToCollection e g from name = Inr g'" "map_of (nodes g) m = Some d"
  shows "map_of (nodes g') m = Some d"
proof -
  from assms(1) obtain n g1 isApi where
    s1: "(if name = SPECIAL_ALL_COLLECTION_NAME \<and> isConfigurationApiConsumer g n then Inr g
          else addDependencyP g (Some (getCollectionKeyForEntry name)) [n]) = Inr g1"
    and s2: "(if \<not> isApi then addDependencyP g1 (Some (getCollectionKeyForEntry SPECIAL_KEYS_COLLECTION_NAME))
                [Some (getCollectionKeyForEntry name)] else Inr g1) = Inr g'"
    unfolding addDependencyPublishesToCollection_def andThen_Inr Let_def by blast
  have k1: "map_of (nodes g1) m = Some d"
    using s1 assms(2) by (auto split: if_splits intro: addDependencyP_keeps)
  from s2 k1 show ?thesis
    by (auto split: if_splits intro: addDependencyP_keeps)
qed

lemma consumes_keeps_data:
  assumes run: "addDependencyConsumesCollection e g from name = Inr g'"
    and present: "map_of (nodes g) m = Some d"
  shows "\<exists>d'. map_of (nodes g') m = Some d'
           \<and> (d' = d \<or> objectAssign d [(''consumes'', CONFIGAPI_DATA_KEY)] = Inr d')"
proof -
  from run obtain n names where nn: "normalizeNode e from = Inr n"
    and names: "userConfigurationCollectionApiNames e = Inr names"
    unfolding addDependencyConsumesCollection_def andThen_Inr Let_def isUserConfigCollectionName_def
    by blast
  from addDependencyP_Inr[of g n "[collectionKey name]"] obtain g1 where
    s1: "addDependencyP g n [collectionKey name] = Inr g1"
    and k1: "\<And>m d. map_of (nodes g) m = Some d \<Longrightarrow> map_of (nodes g1) m = Some d"
    by blast
  from run obtain g2 where
    s2: "(if name \<in> set names then mergeNodeData g1 n [(''consumes'', CONFIGAPI_DATA_KEY)] else Inr g1) = Inr g2"
    and s3: "consumesTail names name g2 = Inr g'"
    unfolding consumes_unfold[OF nn names] s1 andThen_Inr by auto
  have k2: "\<exists>d'. map_of (nodes g2) m = Some d'
           \<and> (d' = d \<or> objectAssign d [(''consumes'', CONFIGAPI_DATA_KEY)] = Inr d')"
  proof (cases "name \<in> set names")
    case False
    with s2 k1[OF present] show ?thesis by simp
  next
    case True
    with s2 have "mergeNodeData g1 n [(''consumes'', CONFIGAPI_DATA_KEY)] = Inr g2" by simp
    from mergeNodeData_Inr[OF this] obtain dn dn' where
      "map_of (nodes g1) n = Some dn" "objectAssign dn [(''consumes'', CONFIGAPI_DATA_KEY)] = Inr dn'"
      "g2 = g1\<lparr> nodes := AList.update n dn' (nodes g1) \<rparr>"
      by blast
    with k1[OF present] show ?thesis by (cases "m = n") (auto simp: update_conv')
  qed
  from consumesTail_Inr[of names name g2] obtain g'' where
    "consumesTail names name g2 = Inr g''"
    "\<And>m d. map_of (nodes g2) m = Some d \<Longrightarrow> map_of (nodes g'') m = Some d" by blast
  with s3 have "\<And>m d. map_of (nodes g2) m = Some d \<Longrightarrow> map_of (nodes g') m = Some d" by simp
  with k2 show ?thesis by blast
qed

lemma removeDependency_nodes: "nodes (removeDependency g a d) = nodes g"
  by (simp add: removeDependency_def Let_def hasNode_def)

lemma hasNode_removeDependency: "hasNode (removeDependency g a d) m = hasNode g m"
  by (simp add: hasNode_def removeDependency_nodes)

lemma out_removeDependency:
  "hasNode g a \<Longrightarrow> edgesOf (outgoingEdges (removeDependency g a d)) a = remove1 d (edgesOf (outgoingEdges g) a)"
  by (simp add: removeDependency_def Let_def hasNode_def spliceAt_def edgesOf_update)

lemma in_removeDependency:
  "set (edgesOf (incomingEdges (removeDependency g a d)) m) - {a} = set (edgesOf (incomingEdges g) m) - {a}"
proof -
  have "set (remove1 a xs) - {a} = set xs - {a}" for xs :: "node list"
    by (induction xs) auto
  then show ?thesis
    by (auto simp: removeDependency_def Let_def hasNode_def spliceAt_def edgesOf_update)
qed

lemma remove_all_in_turn: "foldl (\<lambda>xs d. remove1 d xs) xs xs = []"
  by (induction xs) auto

lemma resetNode_fold:
  assumes "hasNode g a"
  shows "hasNode (foldl (\<lambda>acc dep. removeDependency acc a dep) g ds) a
       \<and> edgesOf (outgoingEdges (foldl (\<lambda>acc dep. removeDependency acc a dep) g ds)) a
           = foldl (\<lambda>xs d. remove1 d xs) (edgesOf (outgoingEdges g) a) ds
       \<and> set (edgesOf (incomingEdges (foldl (\<lambda>acc dep. removeDependency acc a dep) g ds)) m) - {a}
           = set (edgesOf (incomingEdges g) m) - {a}"
  using assms
proof (induction ds arbitrary: g)
  case Nil
  then show ?case by simp
next
  case (Cons d ds)
  have h: "hasNode (removeDependency g a d) a" using Cons.prems by (simp add: hasNode_removeDependency)
  from Cons.IH[OF h] show ?case
    by (simp add: out_removeDependency[OF Cons.prems] in_removeDependency)
qed

lemma dependenciesOf_no_edges:
  assumes "hasNode g a" "edgesOf (outgoingEdges g) a = []"
  shows "dependenciesOf g a = Inr []"
  using assms by (simp add: dependenciesOf_def runDFS_def)

section \<open>Node normalization\<close>




text \<open>
  The other values are those for which the code raises before the descriptive error it
  is about to build: \<^verbatim>\<open>"toString" in node\<close> raises a \<^verbatim>\<open>TypeError\<close> on a truthy primitive
  that is not a string, and the concatenation of the message raises one on an object
  without \<^verbatim>\<open>toString\<close>, or whose \<^verbatim>\<open>toString\<close> returns a symbol.
\<close>

lemma normalizeNode_raises_before_the_message:
  "normalizeNode e (JSNumber 42) = Inl TypeError"
  "normalizeNode e (JSBoolean True) = Inl TypeError"
  "normalizeNode e JSSymbol = Inl TypeError"
  "normalizeNode e (JSObject None) = Inl TypeError"
  "normalizeNode e (JSObject (Some JSSymbol)) = Inl TypeError"
  by simp_all

section \<open>Templates that consume a collection\<close>

lemma consumers_of_blog_plainEnv: "andThen (addDependencyPublishesToCollection (plainEnv names) newDepGraph (JSString ''post1.md'') ''blog'') (\<lambda>g1.
   andThen (addDependencyPublishesToCollection (plainEnv names) g1 (JSString ''post2.md'') ''blog'') (\<lambda>g2.
   andThen (addDependencyConsumesCollection (plainEnv names) g2 (JSString ''index.md'') ''blog'') (\<lambda>g3.
   getTemplatesThatConsumeCollections g3 [''blog'']))) = Inr [''index.md'']"
  if "names = [] \<or> names = [''blog'']"
  using that by (elim disjE; hypsubst) code_simp+

text \<open>
  C3: \<^verbatim>\<open>post1.md\<close> and \<^verbatim>\<open>post2.md\<close> publish to \<^verbatim>\<open>blog\<close>, \<^verbatim>\<open>index.md\<close> consumes it, all on a
  fresh map; then \<^verbatim>\<open>getTemplatesThatConsumeCollections({"blog"})\<close> is exactly
  \<^verbatim>\<open>{"index.md"}\<close>, without the two publishers. This holds in every environment that
  can name its configuration collections and leaves the three names as they are,
  whether or not \<^verbatim>\<open>blog\<close> is one of those collections.
\<close>

theorem consumers_of_blog_scenario:
  assumes names: "userConfigurationCollectionApiNames e = Inr names"
    and n1: "fullNormalization e ''post1.md'' = ''post1.md''"
    and n2: "fullNormalization e ''post2.md'' = ''post2.md''"
    and n3: "fullNormalization e ''index.md'' = ''index.md''"
  shows "andThen (addDependencyPublishesToCollection e newDepGraph (JSString ''post1.md'') ''blog'') (\<lambda>g1.
   andThen (addDependencyPublishesToCollection e g1 (JSString ''post2.md'') ''blog'') (\<lambda>g2.
   andThen (addDependencyConsumesCollection e g2 (JSString ''index.md'') ''blog'') (\<lambda>g3.
   getTemplatesThatConsumeCollections g3 [''blog'']))) = Inr [''index.md'']"
  unfolding publishes_plainEnv[OF names n1] publishes_plainEnv[OF names n2] consumes_plainEnv[OF names n3]
  by (rule consumers_of_blog_plainEnv) simp

theorem consumers_of_blog_scenario_witness:
  "userConfigurationCollectionApiNames (plainEnv []) = Inr []
   \<and> fullNormalization (plainEnv []) ''post1.md'' = ''post1.md''
   \<and> fullNormalization (plainEnv []) ''post2.md'' = ''post2.md''
   \<and> fullNormalization (plainEnv []) ''index.md'' = ''index.md''
   \<and> andThen (addDependencyPublishesToCollection (plainEnv []) newDepGraph (JSString ''post1.md'') ''blog'') (\<lambda>g1.
       andThen (addDependencyPublishesToCollection (plainEnv []) g1 (JSString ''post2.md'') ''blog'') (\<lambda>g2.
       andThen (addDependencyConsumesCollection (plainEnv []) g2 (JSString ''index.md'') ''blog'') (\<lambda>g3.
       getTemplatesThatConsumeCollections g3 [''blog'']))) = Inr [''index.md'']"
proof -
  have names: "userConfigurationCollectionApiNames (plainEnv []) = Inr []"
    by (rule names_plainEnv)
  have n1: "fullNormalization (plainEnv []) ''post1.md'' = ''post1.md''"
    and n2: "fullNormalization (plainEnv []) ''post2.md'' = ''post2.md''"
    and n3: "fullNormalization (plainEnv []) ''index.md'' = ''index.md''"
    by (simp_all add: plainEnv_def)
  from consumers_of_blog_scenario [OF names n1 n2 n3] names n1 n2 n3 show ?thesis by blast
qed

section \<open>Layouts used by a node\<close>

text \<open>
  C2, as stated: after \<^verbatim>\<open>addLayoutsToMap({"base.html": ["post1.md","post2.md"]})\<close>,
  \<^verbatim>\<open>getLayoutsUsedBy("post1.md")\<close> returns \<^verbatim>\<open>["base.html"]\<close>. The edge recorded is
  \<^verbatim>\<open>post1.md \<rightarrow> base.html\<close>, and \<^verbatim>\<open>getLayoutsUsedBy\<close> walks the dependants of its
  argument: nothing depends on \<^verbatim>\<open>post1.md\<close>, so the answer is the empty list.
\<close>

theorem layout_of_post_is_not_reported: "andThen (addLayoutsToMap (plainEnv []) newDepGraph [(''base.html'', [JSString ''post1.md'', JSString ''post2.md''])])
    (\<lambda>g. getLayoutsUsedBy (plainEnv []) g (JSString ''post1.md'')) = Inr []"
  by code_simp

lemma layout_scenario_plainEnv: "andThen (addLayoutsToMap (plainEnv []) newDepGraph [(''base.html'', [JSString ''post1.md'', JSString ''post2.md''])]) (\<lambda>g1.
   andThen (getLayoutsUsedBy (plainEnv []) g1 (JSString ''base.html'')) (\<lambda>r1.
   andThen (getLayoutsUsedBy (plainEnv []) g1 (JSString ''post1.md'')) (\<lambda>r2.
   andThen (addLayoutsToMap (plainEnv []) g1 [(''other.html'', [JSString ''post1.md''])]) (\<lambda>g2.
   andThen (getLayoutsUsedBy (plainEnv []) g2 (JSString ''post1.md'')) (\<lambda>r3.
   andThen (getLayoutsUsedBy (plainEnv []) g2 (JSString ''other.html'')) (\<lambda>r4.
     Inr (r1, r2, hasNode g2 (Some ''base.html''), r3, r4)))))))
   = Inr ([Some ''base.html''], [], False, [], [Some ''other.html''])"
  by code_simp

text \<open>
  C2, amended: after the first call \<^verbatim>\<open>getLayoutsUsedBy("base.html")\<close> is
  \<^verbatim>\<open>["base.html"]\<close> and \<^verbatim>\<open>getLayoutsUsedBy("post1.md")\<close> is empty; after the second
  call, with \<^verbatim>\<open>{"other.html": ["post1.md"]}\<close>, the node \<^verbatim>\<open>base.html\<close> is gone from the
  graph, \<^verbatim>\<open>getLayoutsUsedBy("post1.md")\<close> is still empty and
  \<^verbatim>\<open>getLayoutsUsedBy("other.html")\<close> is \<^verbatim>\<open>["other.html"]\<close>. The components of the result
  are these five observations, in this order. It holds in every environment that leaves
  the four names as they are and does not spider layouts for imports.
\<close>

theorem layout_scenario_amended:
  assumes sp: "\<not> spiders e"
    and b: "fullNormalization e ''base.html'' = ''base.html''"
    and o: "fullNormalization e ''other.html'' = ''other.html''"
    and p1: "fullNormalization e ''post1.md'' = ''post1.md''"
    and p2: "fullNormalization e ''post2.md'' = ''post2.md''"
  shows "andThen (addLayoutsToMap e newDepGraph [(''base.html'', [JSString ''post1.md'', JSString ''post2.md''])]) (\<lambda>g1.
   andThen (getLayoutsUsedBy e g1 (JSString ''base.html'')) (\<lambda>r1.
   andThen (getLayoutsUsedBy e g1 (JSString ''post1.md'')) (\<lambda>r2.
   andThen (addLayoutsToMap e g1 [(''other.html'', [JSString ''post1.md''])]) (\<lambda>g2.
   andThen (getLayoutsUsedBy e g2 (JSString ''post1.md'')) (\<lambda>r3.
   andThen (getLayoutsUsedBy e g2 (JSString ''other.html'')) (\<lambda>r4.
     Inr (r1, r2, hasNode g2 (Some ''base.html''), r3, r4)))))))
   = Inr ([Some ''base.html''], [], False, [], [Some ''other.html''])"
  unfolding base_layout_plainEnv[OF sp b p1 p2] other_layout_plainEnv[OF sp o p1]
    getLayoutsUsedBy_plainEnv[OF b] getLayoutsUsedBy_plainEnv[OF o] getLayoutsUsedBy_plainEnv[OF p1]
  by (rule layout_scenario_plainEnv)

theorem layout_scenario_amended_witness:
  "fullNormalization (plainEnv []) ''base.html'' = ''base.html''
   \<and> fullNormalization (plainEnv []) ''other.html'' = ''other.html''
   \<and> fullNormalization (plainEnv []) ''post1.md'' = ''post1.md''
   \<and> fullNormalization (plainEnv []) ''post2.md'' = ''post2.md''
   \<and> andThen (addLayoutsToMap (plainEnv []) newDepGraph [(''base.html'', [JSString ''post1.md'', JSString ''post2.md''])]) (\<lambda>g1.
       andThen (getLayoutsUsedBy (plainEnv []) g1 (JSString ''base.html'')) (\<lambda>r1.
       andThen (getLayoutsUsedBy (plainEnv []) g1 (JSString ''post1.md'')) (\<lambda>r2.
       andThen (addLayoutsToMap (plainEnv []) g1 [(''other.html'', [JSString ''post1.md''])]) (\<lambda>g2.
       andThen (getLayoutsUsedBy (plainEnv []) g2 (JSString ''post1.md'')) (\<lambda>r3.
       andThen (getLayoutsUsedBy (plainEnv []) g2 (JSString ''other.html'')) (\<lambda>r4.
         Inr (r1, r2, hasNode g2 (Some ''base.html''), r3, r4)))))))
       = Inr ([Some ''base.html''], [], False, [], [Some ''other.html''])"
proof -
  have sp: "\<not> spiders (plainEnv [])" by (simp add: spiders_def plainEnv_def)
  have b: "fullNormalization (plainEnv []) ''base.html'' = ''base.html''"
    and o: "fullNormalization (plainEnv []) ''other.html'' = ''other.html''"
    and p1: "fullNormalization (plainEnv []) ''post1.md'' = ''post1.md''"
    and p2: "fullNormalization (plainEnv []) ''post2.md'' = ''post2.md''"
    by (simp_all add: plainEnv_def)
  from layout_scenario_amended [OF sp b o p1 p2] b o p1 p2 show ?thesis by blast
qed


section \<open>Collections a node was removed from\<close>

text \<open>
  C6, as stated: a node that consumed the collections \<open>x\<close> and \<open>y\<close> gets \<open>{y}\<close> from
  \<^verbatim>\<open>findCollectionsRemovedFrom(node, {x})\<close>. Consuming records the edge from the node to
  the collection; the function reads the dependants of the node, the other direction,
  and finds nothing.
\<close>

theorem consumed_collections_are_not_found: "andThen (addDependencyConsumesCollection (plainEnv []) newDepGraph (JSString ''page.md'') ''x'') (\<lambda>g1.
   andThen (addDependencyConsumesCollection (plainEnv []) g1 (JSString ''page.md'') ''y'') (\<lambda>g2.
     findCollectionsRemovedFrom (plainEnv []) g2 (JSString ''page.md'') {''x''})) = Inr []"
  by code_simp

text \<open>
  C6, amended: for a known node whose direct dependants that are collection nodes are
  exactly those of \<open>x\<close> and \<open>y\<close> (what publishing to \<open>x\<close> and \<open>y\<close> records), with
  \<open>x\<close> and \<open>y\<close> different and \<open>y\<close> not empty, \<^verbatim>\<open>findCollectionsRemovedFrom(node, {x})\<close>
  returns \<open>{y}\<close>.
\<close>

theorem findCollectionsRemovedFrom_published:
  assumes tr: "truthy node" and nn: "normalizeNode e node = Inr n" and hn: "hasNode g n"
    and named: "None \<notin> set (edgesOf (incomingEdges g) n)"
    and pub: "{t. collectionKey t \<in> set (edgesOf (incomingEdges g) n)} = {x, y}"
    and xy: "x \<noteq> y" and y: "y \<noteq> []"
  shows "\<exists>r. findCollectionsRemovedFrom e g node {x} = Inr r \<and> set r = {y}"
proof -
  let ?deps = "edgesOf (incomingEdges g) n"
  define prev where
    "prev = concat (map (\<lambda>n. case n of None \<Rightarrow> [] | Some t \<Rightarrow> if t = [] then [] else [t]) (map tagOf ?deps))"
  have r: "findCollectionsRemovedFrom e g node {x} = Inr (filter (\<lambda>dep. dep \<notin> {x}) (newSet prev))"
    using tr nn hn unfolding prev_def
    by (simp add: findCollectionsRemovedFrom_def hasNodeN_def getDependantsFor_def andThen_def
        directDependantsOf_def mapE_getTagName[OF named] Let_def del: normalizeNode.simps)
  have mem: "t \<in> set prev \<longleftrightarrow> Some t \<in> set (map tagOf ?deps) \<and> t \<noteq> []" for t
    unfolding prev_def by (rule mem_nonEmptyTags)
  have tag: "Some t \<in> set (map tagOf ?deps) \<longleftrightarrow> collectionKey t \<in> set ?deps" for t
  proof
    assume "Some t \<in> set (map tagOf ?deps)"
    then obtain d where "d \<in> set ?deps" "tagOf d = Some t" by auto
    then show "collectionKey t \<in> set ?deps" by (simp add: tagOf_eq_Some)
  next
    assume "collectionKey t \<in> set ?deps"
    moreover have "tagOf (collectionKey t) = Some t" by (simp add: tagOf_eq_Some)
    ultimately show "Some t \<in> set (map tagOf ?deps)" by force
  qed
  have "set prev = {t. t \<noteq> [] \<and> t \<in> {x, y}}"
    using pub mem tag by blast
  then have "set (filter (\<lambda>dep. dep \<notin> {x}) (newSet prev)) = {y}"
    using xy y by (auto simp: set_newSet)
  with r show ?thesis by blast
qed

theorem findCollectionsRemovedFrom_published_witness:
  "\<exists>g. andThen (addDependencyPublishesToCollection (plainEnv []) newDepGraph (JSString ''page.md'') ''x'')
          (\<lambda>g1. addDependencyPublishesToCollection (plainEnv []) g1 (JSString ''page.md'') ''y'') = Inr g
     \<and> truthy (JSString ''page.md'')
     \<and> normalizeNode (plainEnv []) (JSString ''page.md'') = Inr (Some ''page.md'')
     \<and> hasNode g (Some ''page.md'')
     \<and> None \<notin> set (edgesOf (incomingEdges g) (Some ''page.md''))
     \<and> {t. collectionKey t \<in> set (edgesOf (incomingEdges g) (Some ''page.md''))} = {''x'', ''y''}
     \<and> (\<exists>r. findCollectionsRemovedFrom (plainEnv []) g (JSString ''page.md'') {''x''} = Inr r \<and> set r = {''y''})"
proof -
  define g where "g = \<lparr>nodes =
        [(Some ''__collection:x'', DString ''__collection:x''),
         (Some ''page.md'', DString ''page.md''),
         (Some ''__collection:[keys]'', DString ''__collection:[keys]''),
         (Some ''__collection:y'', DString ''__collection:y'')],
        outgoingEdges =
          [(Some ''__collection:x'', [Some ''page.md'']),
           (Some ''page.md'', []),
           (Some ''__collection:[keys]'',
            [Some ''__collection:x'', Some ''__collection:y'']),
           (Some ''__collection:y'', [Some ''page.md''])],
        incomingEdges =
          [(Some ''__collection:x'', [Some ''__collection:[keys]'']),
           (Some ''page.md'',
            [Some ''__collection:x'', Some ''__collection:y'']),
           (Some ''__collection:[keys]'', []),
           (Some ''__collection:y'', [Some ''__collection:[keys]''])]\<rparr>"
  have run: "andThen (addDependencyPublishesToCollection (plainEnv []) newDepGraph (JSString ''page.md'') ''x'')
          (\<lambda>g1. addDependencyPublishesToCollection (plainEnv []) g1 (JSString ''page.md'') ''y'') = Inr g"
    unfolding g_def by code_simp
  have tr: "truthy (JSString ''page.md'')" by simp
  have nn: "normalizeNode (plainEnv []) (JSString ''page.md'') = Inr (Some ''page.md'')"
    by (simp add: plainEnv_def)
  have hn: "hasNode g (Some ''page.md'')" by (simp add: hasNode_def g_def)
  have deps: "edgesOf (incomingEdges g) (Some ''page.md'') = [collectionKey ''x'', collectionKey ''y'']"
    by (simp add: edgesOf_def g_def collectionKey_def getCollectionKeyForEntry_def COLLECTION_PREFIX_def)
  have inj: "collectionKey t = collectionKey u \<longleftrightarrow> t = u" for t u
    by (simp add: collectionKey_def getCollectionKeyForEntry_def)
  have named: "None \<notin> set (edgesOf (incomingEdges g) (Some ''page.md''))"
    by (simp add: deps collectionKey_def)
  have pub: "{t. collectionKey t \<in> set (edgesOf (incomingEdges g) (Some ''page.md''))} = {''x'', ''y''}"
    by (auto simp: deps inj)
  have xy: "''x'' \<noteq> ''y''" and y: "''y'' \<noteq> []" by simp_all
  from findCollectionsRemovedFrom_published [OF tr nn hn named pub xy y] run tr nn hn named pub show ?thesis by blast
qed

section \<open>Persistence round trip\<close>

text \<open>
  C1: \<^verbatim>\<open>restore(stringify(g))\<close> gives back the graph, metadata included. Evaluated on the
  graph in which \<^verbatim>\<open>index.md\<close> consumes the configuration collection \<^verbatim>\<open>posts\<close>: the node
  carries a \<^verbatim>\<open>String\<close> object with \<^verbatim>\<open>consumes\<close> set on it and counts as a
  configuration-API consumer; what is written for it is the bare string, so after
  \<^verbatim>\<open>restore\<close> the tag is gone and the node no longer counts as one.
\<close>

theorem restore_loses_consumes_tag:
  "andThen (addDependencyConsumesCollection (plainEnv [''posts'']) newDepGraph (JSString ''index.md'') ''posts'') (\<lambda>g.
   andThen (restore (stringify g)) (\<lambda>g'.
     Inr (map_of (nodes g) (Some ''index.md''), isConfigurationApiConsumer g (Some ''index.md''),
          map_of (nodes g') (Some ''index.md''), isConfigurationApiConsumer g' (Some ''index.md''))))
   = Inr (Some (DStringObject ''index.md'' [(''consumes'', ''[configapi]'')]), True,
          Some (DString ''index.md''), False)"
  by code_simp

text \<open>
  Metadata held in a plain object does come back: the graph of a layout and its template
  is restored as it was.
\<close>

lemma layout_graph_round_trip:
  "andThen (addLayoutsToMap (plainEnv []) newDepGraph [(''base.html'', [JSString ''post.md''])])
     (\<lambda>g. andThen (restore (stringify g)) (\<lambda>g'. Inr (g' = g))) = Inr True"
  by code_simp

text \<open>
  The order of the nodes is not always kept either: a name that is an array index comes
  first among the properties of the plain object the replacer builds, so the restored
  tables list it first and the overall order changes.
\<close>

lemma restore_moves_index_names_first:
  "andThen (addDependency (plainEnv []) newDepGraph (JSString ''b'') []) (\<lambda>g1.
   andThen (addDependency (plainEnv []) g1 (JSString ''1'') []) (\<lambda>g.
   andThen (restore (stringify g)) (\<lambda>g'. Inr (overallOrder g, overallOrder g'))))
   = Inr ([Some ''b'', Some ''1''], [Some ''1'', Some ''b''])"
  by code_simp

section \<open>The template order\<close>

text \<open>
  C7: \<^verbatim>\<open>getTemplateOrder()\<close> ends with the key of the collection \<^verbatim>\<open>all\<close>. Evaluated on
  the graph whose only node is named \<^verbatim>\<open>__collection:all,__collection:[keys]\<close>: after the
  key of \<^verbatim>\<open>all\<close> is appended, the two entries joined by a comma read like the redundant
  ending of three, the last two entries are cut, and the order returned is empty.
\<close>

theorem template_order_of_lookalike_name: "andThen (addDependency (plainEnv []) newDepGraph (JSString ''__collection:all,__collection:[keys]'') [])
     (\<lambda>g. Inr (getTemplateOrder g)) = Inr []"
  by code_simp

text \<open>
  The two graphs of that kind are the only ones: whenever the overall order is not that
  single name, alone or followed by the key of \<^verbatim>\<open>all\<close>, the template order is not empty
  and ends with the key of \<^verbatim>\<open>all\<close>.
\<close>

lemma joinComma_2: "joinComma [x, y] = nodeString x @ '','' @ nodeString y"
  by (simp add: nodeString_def)

lemma joinComma_3: "joinComma [x, y, z] = nodeString x @ '','' @ nodeString y @ '','' @ nodeString z"
  by (simp add: nodeString_def)

lemma before_only_comma:
  assumes "a @ CHR '','' # b = p" "count_list p (CHR '','') = 1"
  shows "a = takeWhile (\<lambda>c. c \<noteq> CHR '','') p"
proof -
  have "count_list (a @ CHR '','' # b) (CHR '','') = 1" using assms by simp
  then have "count_list a (CHR '','') = 0" by simp
  then have "CHR '','' \<notin> set a" by (simp add: count_list_0_iff)
  then have "takeWhile (\<lambda>c. c \<noteq> CHR '','') (a @ CHR '','' # b) = a"
    by (simp add: takeWhile_append)
  with assms show ?thesis by simp
qed

lemma getTemplateOrder_ends_with_all:
  assumes l1: "overallOrder g \<noteq> [Some ''__collection:all,__collection:[keys]'']"
    and l2: "overallOrder g \<noteq> [Some ''__collection:all,__collection:[keys]'', collectionKey ''all'']"
  shows "getTemplateOrder g \<noteq> [] \<and> last (getTemplateOrder g) = collectionKey ''all''"
proof -
  let ?all = "collectionKey ''all''"
  let ?look = "Some ''__collection:all,__collection:[keys]''"
  define order1 where
    "order1 = (if overallOrder g = [] \<or> last (overallOrder g) \<noteq> ?all then overallOrder g @ [?all] else overallOrder g)"
  have ne: "order1 \<noteq> []" and la: "last order1 = ?all" by (auto simp: order1_def)
  have notlook: "order1 \<noteq> [?look, ?all]"
    using l1 l2 by (auto simp: order1_def split: if_splits)
  have gto: "getTemplateOrder g =
      (if joinComma (sliceLast 3 order1) = ''__collection:all,__collection:[keys],__collection:all''
       then sliceButLast 2 order1 else order1)"
    by (simp add: getTemplateOrder_def order1_def Let_def collectionKey_def
        getCollectionKeyForEntry_def COLLECTION_PREFIX_def SPECIAL_ALL_COLLECTION_NAME_def)
  have allstr: "nodeString ?all = ''__collection:all''"
    by (simp add: nodeString_def collectionKey_def getCollectionKeyForEntry_def COLLECTION_PREFIX_def)
  show ?thesis
  proof (cases "joinComma (sliceLast 3 order1) = ''__collection:all,__collection:[keys],__collection:all''")
    case False
    with gto ne la show ?thesis by simp
  next
    case True
    from ne la obtain front where o: "order1 = front @ [?all]"
      by (metis append_butlast_last_id)
    show ?thesis
    proof (cases front rule: rev_cases)
      case Nil
      with o True show ?thesis by (simp add: sliceLast_def collectionKey_def getCollectionKeyForEntry_def COLLECTION_PREFIX_def)
    next
      case (snoc front' y)
      show ?thesis
      proof (cases front' rule: rev_cases)
        case Nil
        with snoc o have o2: "order1 = [y, ?all]" by simp
        with True have "nodeString y @ '','' @ nodeString ?all = ''__collection:all,__collection:[keys],__collection:all''"
          by (simp add: sliceLast_def joinComma_2 del: joinComma.simps)
        then have "nodeString y = ''__collection:all,__collection:[keys]''"
          by (simp add: allstr)
        then have "y = ?look" by (cases y) (simp_all add: nodeString_def)
        with o2 notlook show ?thesis by simp
      next
        case (snoc front'' x)
        with \<open>front = front' @ [y]\<close> o have o3: "order1 = front'' @ [x, y, ?all]" by simp
        then have "sliceLast 3 order1 = [x, y, ?all]" by (simp add: sliceLast_def)
        with True have "nodeString x @ '','' @ nodeString y @ '','' @ nodeString ?all
            = ''__collection:all,__collection:[keys],__collection:all''"
          by (simp add: joinComma_3 del: joinComma.simps)
        then have "nodeString x @ CHR '','' # nodeString y = ''__collection:all,__collection:[keys]''"
          by (simp add: allstr)
        then have "nodeString x = takeWhile (\<lambda>c. c \<noteq> CHR '','') ''__collection:all,__collection:[keys]''"
          by (rule before_only_comma) simp
        then have "nodeString x = ''__collection:all''" by simp
        then have "x = ?all"
          by (cases x) (simp_all add: nodeString_def collectionKey_def getCollectionKeyForEntry_def COLLECTION_PREFIX_def)
        with o3 gto True show ?thesis by (simp add: sliceButLast_def)
      qed
    qed
  qed
qed

section \<open>Consuming a collection\<close>

text \<open>
  C4: the rules of \<^verbatim>\<open>addDependencyConsumesCollection\<close> for the meta-collections, an
  \<^verbatim>\<open>if\<close> / \<^verbatim>\<open>else if\<close> chain in a graph that never holds an edge from a node to itself.
  For every named node \<open>from\<close> (whose data, if the node is known, is not \<^verbatim>\<open>undefined\<close>)
  the call succeeds, and in the resulting graph: consuming \<^verbatim>\<open>[keys]\<close> gives the edge
  \<^verbatim>\<open>[keys] \<rightarrow> all\<close>; consuming \<^verbatim>\<open>all\<close> gives the edge \<^verbatim>\<open>all \<rightarrow> [keys]\<close>; consuming a
  configuration-API collection gives the edge from that collection to \<^verbatim>\<open>all\<close>, the
  collection being another one than \<^verbatim>\<open>all\<close> itself.
\<close>

theorem consumes_adds_meta_collection_edges:
  assumes nn: "normalizeNode e from = Inr n"
    and names: "userConfigurationCollectionApiNames e = Inr names"
    and named: "n \<noteq> None"
    and data: "map_of (nodes g) n \<noteq> Some DUndefined"
  shows "\<exists>g'. addDependencyConsumesCollection e g from name = Inr g'
     \<and> (name = SPECIAL_KEYS_COLLECTION_NAME
          \<longrightarrow> hasEdge g' (collectionKey SPECIAL_KEYS_COLLECTION_NAME) (collectionKey SPECIAL_ALL_COLLECTION_NAME))
     \<and> (name = SPECIAL_ALL_COLLECTION_NAME
          \<longrightarrow> hasEdge g' (collectionKey SPECIAL_ALL_COLLECTION_NAME) (collectionKey SPECIAL_KEYS_COLLECTION_NAME))
     \<and> (name \<in> set names \<and> name \<noteq> SPECIAL_ALL_COLLECTION_NAME
          \<longrightarrow> hasEdge g' (collectionKey name) (collectionKey SPECIAL_ALL_COLLECTION_NAME))"
proof -
  from addDependencyP_Inr[of g n "[collectionKey name]"] obtain g1 where
    s1: "addDependencyP g n [collectionKey name] = Inr g1"
    and n1: "\<And>m. map_of (nodes g1) m =
                  (if hasNode g m then map_of (nodes g) m
                   else if m = n \<or> m \<in> set [collectionKey name] then Some (dataOfNode m) else None)"
    by blast
  obtain d1 where d1: "map_of (nodes g1) n = Some d1" "d1 \<noteq> DUndefined"
  proof (cases "hasNode g n")
    case True
    then obtain d where "map_of (nodes g) n = Some d" by (auto simp: hasNode_def)
    with True data n1[of n] show ?thesis by (intro that[of d]) auto
  next
    case False
    from named obtain s where "n = Some s" by auto
    with False n1[of n] show ?thesis by (intro that[of "DString s"]) (auto simp: dataOfNode_def)
  qed
  obtain g2 where
    s2: "(if name \<in> set names then mergeNodeData g1 n [(''consumes'', CONFIGAPI_DATA_KEY)] else Inr g1) = Inr g2"
    using mergeNodeData_consumes_Inr[OF d1, of CONFIGAPI_DATA_KEY] by (cases "name \<in> set names") auto
  from consumesTail_Inr[of names name g2] obtain g' where
    s3: "consumesTail names name g2 = Inr g'"
    and e3: "name = SPECIAL_KEYS_COLLECTION_NAME
          \<longrightarrow> hasEdge g' (collectionKey SPECIAL_KEYS_COLLECTION_NAME) (collectionKey SPECIAL_ALL_COLLECTION_NAME)"
       "name = SPECIAL_ALL_COLLECTION_NAME
          \<longrightarrow> hasEdge g' (collectionKey SPECIAL_ALL_COLLECTION_NAME) (collectionKey SPECIAL_KEYS_COLLECTION_NAME)"
       "name \<in> set names \<and> name \<noteq> SPECIAL_ALL_COLLECTION_NAME
          \<longrightarrow> hasEdge g' (collectionKey name) (collectionKey SPECIAL_ALL_COLLECTION_NAME)"
    by blast
  have "addDependencyConsumesCollection e g from name = Inr g'"
    unfolding consumes_unfold[OF nn names] s1 by (simp add: andThen_def s2 s3)
  with e3 show ?thesis by blast
qed

theorem consumes_adds_meta_collection_edges_witness:
  "normalizeNode (plainEnv [''posts'']) (JSString ''index.md'') = Inr (Some ''index.md'')
   \<and> userConfigurationCollectionApiNames (plainEnv [''posts'']) = Inr [''posts'']
   \<and> map_of (nodes newDepGraph) (Some ''index.md'') \<noteq> Some DUndefined
   \<and> (\<exists>g'. addDependencyConsumesCollection (plainEnv [''posts'']) newDepGraph (JSString ''index.md'') ''posts'' = Inr g'
         \<and> hasEdge g' (collectionKey ''posts'') (collectionKey ''all''))"
proof -
  have nn: "normalizeNode (plainEnv [''posts'']) (JSString ''index.md'') = Inr (Some ''index.md'')"
    by (simp add: plainEnv_def)
  have names: "userConfigurationCollectionApiNames (plainEnv [''posts'']) = Inr [''posts'']"
    by (rule names_plainEnv)
  have named: "Some ''index.md'' \<noteq> None" by simp
  have data: "map_of (nodes newDepGraph) (Some ''index.md'') \<noteq> Some DUndefined"
    by (simp add: newDepGraph_def)
  have side: "''posts'' \<in> set [''posts'']" "''posts'' \<noteq> SPECIAL_ALL_COLLECTION_NAME"
    "SPECIAL_ALL_COLLECTION_NAME = ''all''"
    by (simp_all add: SPECIAL_ALL_COLLECTION_NAME_def)
  from consumes_adds_meta_collection_edges [OF nn names named data, of "''posts''"] side nn names data show ?thesis by auto
qed

section \<open>Publishing to a collection\<close>

text \<open>
  C5: what \<^verbatim>\<open>addDependencyPublishesToCollection\<close> adds, in a graph that never holds an
  edge from a node to itself. The call succeeds whenever the configuration collections
  can be named. When the collection is \<^verbatim>\<open>all\<close> and \<open>from\<close> is a recorded
  configuration-API consumer, no edge from the collection to \<open>from\<close> is added: it is
  there afterwards exactly if it was there before. Otherwise the edge from the
  collection to \<open>from\<close> is there afterwards, \<open>from\<close> being another node than the
  collection's own. When the collection is not one of the configuration API's, the edge
  from \<^verbatim>\<open>[keys]\<close> to the collection is there afterwards, the collection being another
  one than \<^verbatim>\<open>[keys]\<close> itself.
\<close>

theorem publishes_adds_edges:
  assumes nn: "normalizeNode e from = Inr n"
    and names: "userConfigurationCollectionApiNames e = Inr names"
  shows "\<exists>g'. addDependencyPublishesToCollection e g from name = Inr g'
     \<and> (if name = SPECIAL_ALL_COLLECTION_NAME \<and> isConfigurationApiConsumer g n
        then hasEdge g' (collectionKey name) n \<longleftrightarrow> hasEdge g (collectionKey name) n
        else collectionKey name \<noteq> n \<longrightarrow> hasEdge g' (collectionKey name) n)
     \<and> (name \<notin> set names \<and> name \<noteq> SPECIAL_KEYS_COLLECTION_NAME
          \<longrightarrow> hasEdge g' (collectionKey SPECIAL_KEYS_COLLECTION_NAME) (collectionKey name))"
proof -
  let ?key = "collectionKey name"
  let ?keys = "collectionKey SPECIAL_KEYS_COLLECTION_NAME"
  let ?skip = "name = SPECIAL_ALL_COLLECTION_NAME \<and> isConfigurationApiConsumer g n"
  obtain g1 where
    s1: "(if ?skip then Inr g else addDependencyP g ?key [n]) = Inr g1"
    and e1: "\<And>a b. hasEdge g1 a b \<longleftrightarrow> hasEdge g a b \<or> (\<not> ?skip \<and> a = ?key \<and> b = n \<and> n \<noteq> ?key)"
  proof (cases ?skip)
    case True
    then show ?thesis using that[of g] by simp
  next
    case False
    from addDependencyP_Inr[of g ?key "[n]"] obtain g1 where
      "addDependencyP g ?key [n] = Inr g1"
      "\<And>a b. hasEdge g1 a b \<longleftrightarrow> hasEdge g a b \<or> (a = ?key \<and> b \<in> set [n] \<and> b \<noteq> ?key)"
      by blast
    with False show ?thesis by (intro that[of g1]) auto
  qed
  obtain g' where
    s2: "(if name \<notin> set names then addDependencyP g1 ?keys [?key] else Inr g1) = Inr g'"
    and e2: "\<And>a b. hasEdge g' a b \<longleftrightarrow> hasEdge g1 a b \<or> (name \<notin> set names \<and> a = ?keys \<and> b = ?key \<and> ?key \<noteq> ?keys)"
  proof (cases "name \<in> set names")
    case True
    then show ?thesis using that[of g1] by simp
  next
    case False
    from addDependencyP_Inr[of g1 ?keys "[?key]"] obtain g' where
      "addDependencyP g1 ?keys [?key] = Inr g'"
      "\<And>a b. hasEdge g' a b \<longleftrightarrow> hasEdge g1 a b \<or> (a = ?keys \<and> b \<in> set [?key] \<and> b \<noteq> ?keys)"
      by blast
    with False show ?thesis by (intro that[of g']) auto
  qed
  have "addDependencyPublishesToCollection e g from name =
      andThen (if ?skip then Inr g else addDependencyP g ?key [n])
        (\<lambda>g1. if name \<notin> set names then addDependencyP g1 ?keys [?key] else Inr g1)"
    unfolding addDependencyPublishesToCollection_def nn isUserConfigCollectionName_Inr[OF names]
      collectionKey_def andThen_def Let_def
    by (simp split: sum.splits)
  also have "\<dots> = Inr g'"
    unfolding s1 by (simp add: andThen_def s2)
  finally have run: "addDependencyPublishesToCollection e g from name = Inr g'" .
  have allkeys: "SPECIAL_ALL_COLLECTION_NAME \<noteq> SPECIAL_KEYS_COLLECTION_NAME"
    by (simp add: SPECIAL_ALL_COLLECTION_NAME_def SPECIAL_KEYS_COLLECTION_NAME_def)
  have p1: "?skip \<Longrightarrow> hasEdge g' ?key n \<longleftrightarrow> hasEdge g ?key n"
    using e1[of ?key n] e2[of ?key n] by auto
  have p2: "\<not> ?skip \<Longrightarrow> ?key \<noteq> n \<Longrightarrow> hasEdge g' ?key n"
    using e1[of ?key n] e2[of ?key n] by auto
  have p3: "name \<notin> set names \<Longrightarrow> name \<noteq> SPECIAL_KEYS_COLLECTION_NAME \<Longrightarrow> hasEdge g' ?keys ?key"
    using e2[of ?keys ?key] by (simp add: collectionKey_eq)
  from run p1 p2 p3 show ?thesis by (intro exI[of _ g']) auto
qed

theorem publishes_adds_edges_witness:
  "normalizeNode (plainEnv []) (JSString ''post.md'') = Inr (Some ''post.md'')
   \<and> userConfigurationCollectionApiNames (plainEnv []) = Inr []
   \<and> (\<exists>g'. addDependencyPublishesToCollection (plainEnv []) newDepGraph (JSString ''post.md'') ''blog'' = Inr g'
         \<and> hasEdge g' (collectionKey ''blog'') (Some ''post.md'')
         \<and> hasEdge g' (collectionKey ''[keys]'') (collectionKey ''blog''))"
proof -
  have nn: "normalizeNode (plainEnv []) (JSString ''post.md'') = Inr (Some ''post.md'')"
    by (simp add: plainEnv_def)
  have names: "userConfigurationCollectionApiNames (plainEnv []) = Inr []"
    by (rule names_plainEnv)
  have side: "''blog'' \<noteq> SPECIAL_ALL_COLLECTION_NAME" "''blog'' \<noteq> SPECIAL_KEYS_COLLECTION_NAME"
    "collectionKey ''blog'' \<noteq> Some ''post.md''" "''blog'' \<notin> set []"
    "SPECIAL_KEYS_COLLECTION_NAME = ''[keys]''"
    by (simp_all add: SPECIAL_ALL_COLLECTION_NAME_def SPECIAL_KEYS_COLLECTION_NAME_def
        collectionKey_def getCollectionKeyForEntry_def COLLECTION_PREFIX_def)
  from publishes_adds_edges [OF nn names, of newDepGraph "''blog''"] side nn names show ?thesis by auto
qed

section \<open>Resetting a node\<close>

text \<open>
  C8: for nodes \<open>A\<close>, \<open>B\<close>, \<open>C\<close> with \<open>A\<close> and \<open>C\<close> normalizing to different names and
  \<open>A\<close> not falsy, and from any graph: after \<^verbatim>\<open>addDependency(A,[B])\<close> and
  \<^verbatim>\<open>addDependency(C,[A])\<close>, \<^verbatim>\<open>resetNode(A)\<close> leaves \<^verbatim>\<open>getDependencies(A)\<close> empty, while
  \<^verbatim>\<open>getDependantsFor(A)\<close> still has \<open>C\<close>. All five calls return.
\<close>

theorem resetNode_removes_outgoing_only:
  assumes tA: "truthy A"
    and nA: "normalizeNode e A = Inr a" and nB: "normalizeNode e B = Inr b"
    and nC: "normalizeNode e C = Inr c"
    and ac: "a \<noteq> c"
  shows "\<exists>g1 g2 g3 ns. addDependency e g A [B] = Inr g1
      \<and> addDependency e g1 C [A] = Inr g2
      \<and> resetNode e g2 A = Inr g3
      \<and> getDependencies e g3 A True = Inr (Some [])
      \<and> getDependantsFor e g3 A = Inr (Array ns) \<and> c \<in> set ns"
proof -
  from addDependencyP_Inr[of g a "[b]"] obtain g1 where
    s1: "addDependencyP g a [b] = Inr g1" by blast
  from addDependencyP_Inr[of g1 c "[a]"] obtain g2 where
    s2: "addDependencyP g1 c [a] = Inr g2"
    and e2: "\<And>x y. hasEdge g2 x y \<longleftrightarrow> hasEdge g1 x y \<or> (x = c \<and> y \<in> set [a] \<and> y \<noteq> c)"
    by blast
  have edge: "hasEdge g2 c a" using e2[of c a] ac by simp
  then have h2: "hasNode g2 a" and in2: "c \<in> set (edgesOf (incomingEdges g2) a)"
    by (simp_all add: hasEdge_def)
  let ?g3 = "foldl (\<lambda>acc dep. removeDependency acc a dep) g2 (edgesOf (outgoingEdges g2) a)"
  from resetNode_fold[OF h2, of "edgesOf (outgoingEdges g2) a" a] have
    h3: "hasNode ?g3 a"
    and o3: "edgesOf (outgoingEdges ?g3) a = []"
    and i3: "set (edgesOf (incomingEdges ?g3) a) - {a} = set (edgesOf (incomingEdges g2) a) - {a}"
    by (simp_all add: remove_all_in_turn)
  have in3: "c \<in> set (edgesOf (incomingEdges ?g3) a)" using i3 in2 ac by blast
  have r1: "addDependency e g A [B] = Inr g1"
    by (simp add: addDependency_def andThen_def nA nB s1 del: normalizeNode.simps)
  have r2: "addDependency e g1 C [A] = Inr g2"
    by (simp add: addDependency_def andThen_def nA nC s2 del: normalizeNode.simps)
  have r3: "resetNode e g2 A = Inr ?g3"
    by (simp add: resetNode_def andThen_def nA h2 directDependenciesOf_def del: normalizeNode.simps)
  have r4: "getDependencies e ?g3 A True = Inr (Some [])"
    by (simp add: getDependencies_def andThen_def nA h3 dependenciesOf_no_edges[OF h3 o3]
        del: normalizeNode.simps)
  have r5: "getDependantsFor e ?g3 A = Inr (Array (edgesOf (incomingEdges ?g3) a))"
    using tA by (simp add: getDependantsFor_def andThen_def nA h3 directDependantsOf_def
        del: normalizeNode.simps)
  from r1 r2 r3 r4 r5 in3 show ?thesis by blast
qed

theorem resetNode_removes_outgoing_only_witness:
  "truthy (JSString ''a.md'')
   \<and> normalizeNode (plainEnv []) (JSString ''a.md'') = Inr (Some ''a.md'')
   \<and> normalizeNode (plainEnv []) (JSString ''b.md'') = Inr (Some ''b.md'')
   \<and> normalizeNode (plainEnv []) (JSString ''c.md'') = Inr (Some ''c.md'')
   \<and> Some ''a.md'' \<noteq> Some ''c.md''
   \<and> (\<exists>g1 g2 g3 ns. addDependency (plainEnv []) newDepGraph (JSString ''a.md'') [JSString ''b.md''] = Inr g1
      \<and> addDependency (plainEnv []) g1 (JSString ''c.md'') [JSString ''a.md''] = Inr g2
      \<and> resetNode (plainEnv []) g2 (JSString ''a.md'') = Inr g3
      \<and> getDependencies (plainEnv []) g3 (JSString ''a.md'') True = Inr (Some [])
      \<and> getDependantsFor (plainEnv []) g3 (JSString ''a.md'') = Inr (Array ns) \<and> Some ''c.md'' \<in> set ns)"
proof -
  have tA: "truthy (JSString ''a.md'')" by simp
  have nA: "normalizeNode (plainEnv []) (JSString ''a.md'') = Inr (Some ''a.md'')"
    and nB: "normalizeNode (plainEnv []) (JSString ''b.md'') = Inr (Some ''b.md'')"
    and nC: "normalizeNode (plainEnv []) (JSString ''c.md'') = Inr (Some ''c.md'')"
    by (simp_all add: plainEnv_def)
  have ac: "Some ''a.md'' \<noteq> Some ''c.md''" by simp
  from resetNode_removes_outgoing_only [OF tA nA nB nC ac, of newDepGraph] tA nA nB nC ac show ?thesis by blast
qed

section \<open>Edge creation and node metadata\<close>

text \<open>
  C10: a node \<open>m\<close> that is in the graph keeps what it carries through
  \<^verbatim>\<open>addDependency\<close> and \<^verbatim>\<open>addDependencyPublishesToCollection\<close>, whatever part it plays in
  the call; through \<^verbatim>\<open>addDependencyConsumesCollection\<close> every entry of its metadata
  keeps its value, so a layout stays a layout. The one entry such a call can write is
  \<^verbatim>\<open>consumes\<close>, with the only value the class ever gives it; the node is assumed not to
  carry another value there.
\<close>

theorem edge_creation_keeps_metadata:
  assumes present: "map_of (nodes g) m = Some d"
    and tag: "dataProp d ''consumes'' = None \<or> dataProp d ''consumes'' = Some CONFIGAPI_DATA_KEY"
  shows "(addDependency e g from tos = Inr g' \<longrightarrow> map_of (nodes g') m = Some d)
       \<and> (addDependencyPublishesToCollection e g from name = Inr g' \<longrightarrow> map_of (nodes g') m = Some d)
       \<and> (addDependencyConsumesCollection e g from name = Inr g' \<longrightarrow>
            (\<exists>d'. map_of (nodes g') m = Some d'
               \<and> (\<forall>k v. dataProp d k = Some v \<longrightarrow> dataProp d' k = Some v)
               \<and> (isLayoutData d \<longrightarrow> isLayoutData d')))"
proof (intro conjI impI)
  assume "addDependency e g from tos = Inr g'"
  then show "map_of (nodes g') m = Some d" using present by (rule addDependency_keeps_data)
next
  assume "addDependencyPublishesToCollection e g from name = Inr g'"
  then show "map_of (nodes g') m = Some d" using present by (rule publishes_keeps_data)
next
  assume "addDependencyConsumesCollection e g from name = Inr g'"
  from consumes_keeps_data[OF this present] obtain d' where
    d': "map_of (nodes g') m = Some d'"
    and alt: "d' = d \<or> objectAssign d [(''consumes'', CONFIGAPI_DATA_KEY)] = Inr d'"
    by blast
  have keep: "dataProp d k = Some v \<Longrightarrow> dataProp d' k = Some v" for k v
    using alt tag by (auto simp: objectAssign_consumes)
  then have "isLayoutData d \<longrightarrow> isLayoutData d'" by (simp add: isLayoutData_def)
  with d' keep show "\<exists>d'. map_of (nodes g') m = Some d'
               \<and> (\<forall>k v. dataProp d k = Some v \<longrightarrow> dataProp d' k = Some v)
               \<and> (isLayoutData d \<longrightarrow> isLayoutData d')" by blast
qed

theorem edge_creation_keeps_metadata_witness:
  "\<exists>g g'. addLayoutsToMap (plainEnv [''posts'']) newDepGraph [(''base.html'', [JSString ''post.md''])] = Inr g
     \<and> map_of (nodes g) (Some ''base.html'') = Some (DObject [(''type'', ''layout'')])
     \<and> dataProp (DObject [(''type'', ''layout'')]) ''consumes'' = None
     \<and> addDependencyConsumesCollection (plainEnv [''posts'']) g (JSString ''base.html'') ''posts'' = Inr g'
     \<and> (\<exists>d'. map_of (nodes g') (Some ''base.html'') = Some d' \<and> isLayoutData d')"
proof -
  define g where "g = \<lparr>nodes =
        [(Some ''base.html'', DObject [(''type'', ''layout'')]),
         (Some ''post.md'', DString ''post.md'')],
        outgoingEdges =
          [(Some ''base.html'', []),
           (Some ''post.md'', [Some ''base.html''])],
        incomingEdges =
          [(Some ''base.html'', [Some ''post.md'']),
           (Some ''post.md'', [])]\<rparr>"
  define g' where "g' = \<lparr>nodes =
        [(Some ''base.html'',
          DObject
           [(''type'', ''layout''), (''consumes'', ''[configapi]'')]),
         (Some ''post.md'', DString ''post.md''),
         (Some ''__collection:posts'', DString ''__collection:posts''),
         (Some ''__collection:all'', DString ''__collection:all'')],
        outgoingEdges =
          [(Some ''base.html'', [Some ''__collection:posts'']),
           (Some ''post.md'', [Some ''base.html'']),
           (Some ''__collection:posts'', [Some ''__collection:all'']),
           (Some ''__collection:all'', [])],
        incomingEdges =
          [(Some ''base.html'', [Some ''post.md'']), (Some ''post.md'', []),
           (Some ''__collection:posts'', [Some ''base.html'']),
           (Some ''__collection:all'', [Some ''__collection:posts''])]\<rparr>"
  have run1: "addLayoutsToMap (plainEnv [''posts'']) newDepGraph [(''base.html'', [JSString ''post.md''])] = Inr g"
    unfolding g_def by code_simp
  have run2: "addDependencyConsumesCollection (plainEnv [''posts'']) g (JSString ''base.html'') ''posts'' = Inr g'"
    unfolding g_def g'_def by code_simp
  have present: "map_of (nodes g) (Some ''base.html'') = Some (DObject [(''type'', ''layout'')])"
    by (simp add: g_def)
  have tag: "dataProp (DObject [(''type'', ''layout'')]) ''consumes'' = None
       \<or> dataProp (DObject [(''type'', ''layout'')]) ''consumes'' = Some CONFIGAPI_DATA_KEY"
    by (simp add: dataProp_def)
  have lay: "isLayoutData (DObject [(''type'', ''layout'')])"
    by (simp add: isLayoutData_def dataProp_def LAYOUT_KEY_def)
  have none: "dataProp (DObject [(''type'', ''layout'')]) ''consumes'' = None"
    by (simp add: dataProp_def)
  from edge_creation_keeps_metadata [OF present tag, of "plainEnv [''posts'']" "JSString ''base.html''" "[]" g' "''posts''"]
    run1 run2 present lay none show ?thesis by blast
qed

end
